theory Spec2Isabelle
  imports
    Main
    "HOL-Library.Log_Nat"
    "HOL-Library.AList"
    "HOL-Library.Char_ord"
    "HOL-Library.List_Lexorder"
begin

section \<open>Python values, exceptions and double arithmetic\<close>

text \<open>
  The profile is a document (\<open>Dict[str, Any]\<close>) of the values that JSON and the
  schema types of \<open>IntelModuleBase._TYPE_MAPPING\<close> give: \<open>None\<close>, booleans, integers,
  floats, strings, lists, tuples (an array is a list or a tuple) and dictionaries. A
  dictionary is an association list in insertion order, looked up with \<open>map_of\<close>. A
  finite double is the rational number it denotes exactly.
\<close>

datatype pyval =
    PNone
  | PBool bool
  | PInt int
  | PFloat rat
  | PStr string
  | PList "pyval list"
  | PTuple "pyval list"
  | PDict "(string \<times> pyval) list"

type_synonym pydict = "(string \<times> pyval) list"

text \<open>
  An exception carries whether its class derives from \<open>Exception\<close> (the classes
  \<open>except Exception\<close> catches) or only from \<open>BaseException\<close> (\<open>KeyboardInterrupt\<close>,
  \<open>SystemExit\<close>, \<open>GeneratorExit\<close>), and the text \<open>str(exc)\<close>.
\<close>

datatype exc_kind = ExceptionSubclass | BaseExceptionOnly

datatype py_exception = Raised exc_kind string

fun exc_kind_of :: "py_exception \<Rightarrow> exc_kind" where
  "exc_kind_of (Raised k s) = k"

fun exc_str :: "py_exception \<Rightarrow> string" where
  "exc_str (Raised k s) = s"

fun type_name :: "pyval \<Rightarrow> string" where
  "type_name PNone = ''NoneType''"
| "type_name (PBool b) = ''bool''"
| "type_name (PInt i) = ''int''"
| "type_name (PFloat x) = ''float''"
| "type_name (PStr s) = ''str''"
| "type_name (PList xs) = ''list''"
| "type_name (PTuple xs) = ''tuple''"
| "type_name (PDict kvs) = ''dict''"

definition attribute_error :: "pyval \<Rightarrow> string \<Rightarrow> py_exception" where
  "attribute_error obj attr =
     Raised ExceptionSubclass
       (CHR 0x27 # type_name obj @ CHR 0x27 # '' object has no attribute '' @
        CHR 0x27 # attr @ [CHR 0x27])"

text \<open>\<open>obj.get(key)\<close>: a dictionary answers \<open>None\<close> for an absent key; any other
  value of the document has no attribute \<open>get\<close>.\<close>

definition py_get :: "pyval \<Rightarrow> string \<Rightarrow> py_exception + pyval" where
  "py_get obj k =
     (case obj of
        PDict kvs \<Rightarrow> Inr (case map_of kvs k of None \<Rightarrow> PNone | Some v \<Rightarrow> v)
      | _ \<Rightarrow> Inl (attribute_error obj ''get''))"

text \<open>\<open>profile.get(section)\<close> on the profile dictionary.\<close>

definition profile_get :: "pydict \<Rightarrow> string \<Rightarrow> pyval" where
  "profile_get profile k = (case map_of profile k of None \<Rightarrow> PNone | Some v \<Rightarrow> v)"

subsection \<open>IEEE-754 binary64 rounding\<close>

text \<open>
  Every float operation of the source is the exact operation followed by rounding to
  the nearest double, ties to even. \<open>binade a\<close> is the exponent \<open>e\<close> with
  \<open>2^e \<le> a < 2^(e+1)\<close>; the significand has 53 bits. The exponent range is not
  bounded here: overflow and subnormals are outside the values the planner computes.
\<close>

definition pow2 :: "int \<Rightarrow> rat" where
  "pow2 k = (if 0 \<le> k then 2 ^ nat k else 1 / 2 ^ nat (- k))"

definition round_half_even :: "rat \<Rightarrow> int" where
  "round_half_even x =
     (let n = \<lfloor>x\<rfloor>; r = x - of_int n
      in if r < 1 / 2 then n else if 1 / 2 < r then n + 1
         else if even n then n else n + 1)"

definition binade :: "rat \<Rightarrow> int" where
  "binade a =
     (if 1 \<le> a then int (floorlog 2 (nat \<lfloor>a\<rfloor>)) - 1
      else - int (floorlog 2 (nat \<lceil>1 / a\<rceil> - 1)))"

definition fl :: "rat \<Rightarrow> rat" where
  "fl x =
     (if x = 0 then 0
      else let a = \<bar>x\<bar>; u = pow2 (binade a - 52)
           in sgn x * of_int (round_half_even (a / u)) * u)"

text \<open>\<open>float(n)\<close> for an integer operand of a mixed operation, \<open>n / d\<close> on two
  integers (true division, correctly rounded), and \<open>round(x, 2)\<close>: the decimal
  nearest to the exact value of \<open>x\<close> with two digits, ties to even, converted back
  to a double.\<close>

definition float_of_nat :: "nat \<Rightarrow> rat" where
  "float_of_nat n = fl (of_nat n)"

definition py_truediv :: "nat \<Rightarrow> nat \<Rightarrow> rat" where
  "py_truediv n d = fl (of_nat n / of_nat d)"

definition py_round2 :: "rat \<Rightarrow> rat" where
  "py_round2 x = fl (of_int (round_half_even (x * 100)) / 100)"

subsection \<open>\<open>str.lower\<close>\<close>

text \<open>
  \<open>str.lower\<close> is Python's lower-casing of Unicode text. The planner's functions take
  it as the parameter \<open>str_lower\<close>, and what is proved of them holds for every such
  function. \<open>ascii_lower\<close> is what \<open>str.lower\<close> does on a string of ASCII characters;
  the examples, whose names are ASCII, run with it.
\<close>

definition ascii_char_lower :: "char \<Rightarrow> char" where
  "ascii_char_lower c =
     (if CHR ''A'' \<le> c \<and> c \<le> CHR ''Z'' then char_of (of_char c + (32::nat)) else c)"

definition ascii_lower :: "string \<Rightarrow> string" where
  "ascii_lower s = map ascii_char_lower s"

section \<open>The planner (\<open>intel_engine/ai/planner.py\<close>)\<close>

record gap_entry =
  missing_fields :: "string list"
  completeness :: rat

type_synonym requirement_index = "(string \<times> string list) list"

text \<open>\<open>_build_module_catalog\<close>.\<close>

definition section_modules :: "(string \<times> string list) list" where
  "section_modules =
     [(''identity'', [''Identity_DeepDive'', ''Alias_Expansion'']),
      (''contact'', [''Contact_Network_Map'']),
      (''digital'', [''Digital_Footprint_Audit'']),
      (''business'', [''Research_ABN_Lookup'', ''Director_Association_Scan'']),
      (''legal'', [''Legal_Proceedings_Scan'']),
      (''metadata'', [''Document_Metadata_Aggregator'']),
      (''social'', [''Social_Temporal_Analysis'']),
      (''geo'', [''Geo_History_Reconstruction'']),
      (''risk'', [''Risk_Scorer''])]"

text \<open>\<open>value in (None, "", [], {})\<close>.\<close>

definition is_empty_value :: "pyval \<Rightarrow> bool" where
  "is_empty_value v \<longleftrightarrow> v = PNone \<or> v = PStr [] \<or> v = PList [] \<or> v = PDict []"

text \<open>The loop \<open>for field_name in required_fields\<close> of \<open>analyze_gaps\<close>; the
  accumulator is \<open>missing_fields\<close>.\<close>

fun missing_loop :: "pyval \<Rightarrow> string list \<Rightarrow> string list \<Rightarrow> py_exception + string list" where
  "missing_loop section_payload [] missing = Inr missing"
| "missing_loop section_payload (field_name # rest) missing =
     (case py_get section_payload field_name of
        Inl e \<Rightarrow> Inl e
      | Inr v \<Rightarrow>
          missing_loop section_payload rest
            (if is_empty_value v then missing @ [field_name] else missing))"

text \<open>The body of the loop over \<open>section_requirements.items()\<close>.\<close>

definition section_gap :: "pydict \<Rightarrow> string \<Rightarrow> string list \<Rightarrow> py_exception + gap_entry" where
  "section_gap profile section required_fields =
     (let section_payload = profile_get profile section in
      case (if section_payload = PNone
            then Inr (if required_fields = [] then [''__section_missing__'']
                      else required_fields)
            else missing_loop section_payload required_fields []) of
        Inl e \<Rightarrow> Inl e
      | Inr missing \<Rightarrow>
          (let denominator = max 1 (length required_fields);
               c = max 0 (fl (1 - py_truediv (length missing) denominator))
           in Inr \<lparr>missing_fields = missing, completeness = c\<rparr>))"

fun analyze_loop ::
  "pydict \<Rightarrow> requirement_index \<Rightarrow> (string \<times> gap_entry) list
     \<Rightarrow> py_exception + (string \<times> gap_entry) list" where
  "analyze_loop profile [] gaps = Inr gaps"
| "analyze_loop profile ((section, required_fields) # rest) gaps =
     (case section_gap profile section required_fields of
        Inl e \<Rightarrow> Inl e
      | Inr entry \<Rightarrow> analyze_loop profile rest (AList.update section entry gaps))"

definition analyze_gaps ::
  "requirement_index \<Rightarrow> pydict \<Rightarrow> py_exception + (string \<times> gap_entry) list" where
  "analyze_gaps section_requirements profile = analyze_loop profile section_requirements []"

text \<open>The score of one candidate, in the source's order of operations.\<close>

definition priority_multiplier :: "nat \<Rightarrow> rat" where
  "priority_multiplier rank = max (1 / 2) (fl (1 - fl (float_of_nat rank * fl (1 / 10))))"

definition field_pressure :: "nat \<Rightarrow> rat" where
  "field_pressure n = fl (1 + fl (float_of_nat n * fl (1 / 20)))"

definition raw_score :: "rat \<Rightarrow> nat \<Rightarrow> nat \<Rightarrow> rat" where
  "raw_score missing_ratio rank n =
     fl (fl (fl (missing_ratio * 100) * priority_multiplier rank) * field_pressure n)"

definition module_score :: "rat \<Rightarrow> nat \<Rightarrow> nat \<Rightarrow> rat" where
  "module_score missing_ratio rank n = py_round2 (raw_score missing_ratio rank n)"

type_synonym suggestion = "string \<times> rat"

text \<open>The loop \<open>for rank, module_name in enumerate(modules)\<close>; \<open>str_lower\<close> is
  \<open>str.lower\<close>.\<close>

fun candidates_loop ::
  "(string \<Rightarrow> string) \<Rightarrow> string set \<Rightarrow> rat \<Rightarrow> nat \<Rightarrow> (nat \<times> string) list
     \<Rightarrow> suggestion list \<Rightarrow> suggestion list" where
  "candidates_loop str_lower executed missing_ratio n [] suggestions = suggestions"
| "candidates_loop str_lower executed missing_ratio n ((rank, module_name) # rest) suggestions =
     candidates_loop str_lower executed missing_ratio n rest
       (if str_lower module_name \<in> executed then suggestions
        else suggestions @ [(module_name, module_score missing_ratio rank n)])"

text \<open>The loop \<open>for section, details in gap_summary.items()\<close>.\<close>

fun sections_loop ::
  "(string \<Rightarrow> string) \<Rightarrow> string set \<Rightarrow> (string \<times> gap_entry) list \<Rightarrow> suggestion list
     \<Rightarrow> suggestion list" where
  "sections_loop str_lower executed [] suggestions = suggestions"
| "sections_loop str_lower executed ((section, details) # rest) suggestions =
     (let modules = (case map_of section_modules section of None \<Rightarrow> [] | Some ms \<Rightarrow> ms)
      in if modules = [] then sections_loop str_lower executed rest suggestions
         else let missing_ratio = fl (1 - completeness details)
              in if missing_ratio \<le> 0 then sections_loop str_lower executed rest suggestions
                 else sections_loop str_lower executed rest
                        (candidates_loop str_lower executed missing_ratio
                           (length (missing_fields details)) (enumerate 0 modules)
                           suggestions))"

text \<open>\<open>suggestions.sort(key=score, reverse=True)\<close>: a stable sort, descending.\<close>

definition sort_suggestions :: "suggestion list \<Rightarrow> suggestion list" where
  "sort_suggestions suggestions = sort_key (\<lambda>item. - snd item) suggestions"

definition suggest_modules ::
  "(string \<Rightarrow> string) \<Rightarrow> requirement_index \<Rightarrow> pydict \<Rightarrow> string list option
     \<Rightarrow> py_exception + suggestion list" where
  "suggest_modules str_lower section_requirements profile history =
     (let executed = set (map str_lower (case history of None \<Rightarrow> [] | Some h \<Rightarrow> h))
      in case analyze_gaps section_requirements profile of
           Inl e \<Rightarrow> Inl e
         | Inr gap_summary \<Rightarrow> Inr (sort_suggestions (sections_loop str_lower executed gap_summary [])))"

text \<open>The score formula in the specification's words, over exact arithmetic and without
  the final rounding; it is compared with \<open>module_score\<close> below.\<close>

definition spec_score :: "rat \<Rightarrow> nat \<Rightarrow> nat \<Rightarrow> rat" where
  "spec_score missing_ratio rank n =
     missing_ratio * 100 * max (1 / 2) (1 - of_nat rank * (1 / 10)) * (1 + (1 / 20) * of_nat n)"

subsection \<open>The planner with the profile as state\<close>

text \<open>
  The same two methods, with the profile threaded through as the state that every
  statement may change: each statement that touches the profile is an operation that
  takes the profile and returns it with its result. The only such statements of
  \<open>analyze_gaps\<close> are \<open>profile.get(section)\<close> and \<open>section_payload.get(field_name)\<close>;
  \<open>suggest_modules\<close> touches the profile only through \<open>analyze_gaps\<close>. The lists
  \<open>missing_fields\<close>, the dictionary \<open>gaps\<close> and the list \<open>suggestions\<close> are new
  objects of the call.
\<close>

definition profile_read :: "string \<Rightarrow> pydict \<Rightarrow> pyval \<times> pydict" where
  "profile_read section profile = (profile_get profile section, profile)"

definition field_read :: "string \<Rightarrow> string \<Rightarrow> pydict \<Rightarrow> (py_exception + pyval) \<times> pydict" where
  "field_read section field_name profile =
     (py_get (profile_get profile section) field_name, profile)"

fun missing_loop_st ::
  "string \<Rightarrow> string list \<Rightarrow> string list \<Rightarrow> pydict \<Rightarrow> (py_exception + string list) \<times> pydict" where
  "missing_loop_st section [] missing profile = (Inr missing, profile)"
| "missing_loop_st section (field_name # rest) missing profile =
     (case field_read section field_name profile of
        (Inl e, profile') \<Rightarrow> (Inl e, profile')
      | (Inr v, profile') \<Rightarrow>
          missing_loop_st section rest
            (if is_empty_value v then missing @ [field_name] else missing) profile')"

definition section_gap_st ::
  "string \<Rightarrow> string list \<Rightarrow> pydict \<Rightarrow> (py_exception + gap_entry) \<times> pydict" where
  "section_gap_st section required_fields profile =
     (case profile_read section profile of
        (section_payload, profile1) \<Rightarrow>
     (case (if section_payload = PNone
            then (Inr (if required_fields = [] then [''__section_missing__'']
                       else required_fields), profile1)
            else missing_loop_st section required_fields [] profile1) of
        (Inl e, profile2) \<Rightarrow> (Inl e, profile2)
      | (Inr missing, profile2) \<Rightarrow>
          (let denominator = max 1 (length required_fields);
               c = max 0 (fl (1 - py_truediv (length missing) denominator))
           in (Inr \<lparr>missing_fields = missing, completeness = c\<rparr>, profile2))))"

fun analyze_loop_st ::
  "requirement_index \<Rightarrow> (string \<times> gap_entry) list \<Rightarrow> pydict
     \<Rightarrow> (py_exception + (string \<times> gap_entry) list) \<times> pydict" where
  "analyze_loop_st [] gaps profile = (Inr gaps, profile)"
| "analyze_loop_st ((section, required_fields) # rest) gaps profile =
     (case section_gap_st section required_fields profile of
        (Inl e, profile') \<Rightarrow> (Inl e, profile')
      | (Inr entry, profile') \<Rightarrow>
          analyze_loop_st rest (AList.update section entry gaps) profile')"

definition analyze_gaps_st ::
  "requirement_index \<Rightarrow> pydict \<Rightarrow> (py_exception + (string \<times> gap_entry) list) \<times> pydict" where
  "analyze_gaps_st section_requirements profile =
     analyze_loop_st section_requirements [] profile"

definition suggest_modules_st ::
  "(string \<Rightarrow> string) \<Rightarrow> requirement_index \<Rightarrow> string list option \<Rightarrow> pydict
     \<Rightarrow> (py_exception + suggestion list) \<times> pydict" where
  "suggest_modules_st str_lower section_requirements history profile =
     (let executed = set (map str_lower (case history of None \<Rightarrow> [] | Some h \<Rightarrow> h))
      in case analyze_gaps_st section_requirements profile of
           (Inl e, profile') \<Rightarrow> (Inl e, profile')
         | (Inr gap_summary, profile') \<Rightarrow>
             (Inr (sort_suggestions (sections_loop str_lower executed gap_summary [])), profile'))"

section \<open>The orchestrator (\<open>intel_engine/modules/research_ai_orchestrator.py\<close>)\<close>

subsection \<open>Dependency resolution\<close>

definition MODULE_PRIORITY :: "string list" where
  "MODULE_PRIORITY =
     [''theHarvester'', ''Recon-ng'', ''SpiderFoot'', ''Photon'', ''Metagoofil'',
      ''Sherlock'', ''GHunt'', ''Skiptracer'', ''Twint'']"

type_synonym dep_table = "(string \<times> string list) list"

text \<open>The dictionary \<open>dependencies\<close> of \<open>_build_execution_order\<close>.\<close>

definition dependencies :: dep_table where
  "dependencies =
     [(''Recon-ng'', [''theHarvester'']),
      (''SpiderFoot'', [''theHarvester'', ''Recon-ng'']),
      (''Photon'', [''theHarvester'']),
      (''Metagoofil'', [''Photon'']),
      (''GHunt'', []),
      (''Sherlock'', []),
      (''Skiptracer'', []),
      (''Twint'', []),
      (''theHarvester'', [])]"

text \<open>\<open>dependencies.get(module_id, [])\<close>.\<close>

definition deps_of :: "dep_table \<Rightarrow> string \<Rightarrow> string list" where
  "deps_of D module_id = (case map_of D module_id of None \<Rightarrow> [] | Some ds \<Rightarrow> ds)"

text \<open>\<open>_order_modules\<close>: the loop over \<open>MODULE_PRIORITY\<close>, then \<open>sorted(remaining)\<close>.
  Strings are ordered lexicographically by character code.\<close>

fun priority_loop :: "string list \<Rightarrow> string list \<Rightarrow> string set \<Rightarrow> string list \<times> string set" where
  "priority_loop [] ordered_names remaining = (ordered_names, remaining)"
| "priority_loop (name # rest) ordered_names remaining =
     (if name \<in> remaining
      then priority_loop rest (ordered_names @ [name]) (remaining - {name})
      else priority_loop rest ordered_names remaining)"

definition order_modules :: "string list \<Rightarrow> string list" where
  "order_modules modules =
     (case priority_loop MODULE_PRIORITY [] (set modules) of
        (ordered_names, remaining) \<Rightarrow> ordered_names @ sorted_list_of_set remaining)"

text \<open>
  The closure loop. \<open>expanded\<close> is a Python set. One pass of the \<open>while\<close> body
  iterates over the snapshot \<open>list(expanded)\<close> and adds every dependency of every
  member that is not yet in the set, so after the pass the set is the union below,
  whatever the iteration order; \<open>changed\<close> is set exactly when the set grew.
\<close>

definition closure_pass :: "dep_table \<Rightarrow> string set \<Rightarrow> string set" where
  "closure_pass D expanded = expanded \<union> (\<Union>module_id \<in> expanded. set (deps_of D module_id))"

function expand_closure :: "dep_table \<Rightarrow> string set \<Rightarrow> string set" where
  "expand_closure D expanded =
     (let expanded' = closure_pass D expanded
      in if expanded' = expanded then expanded' else expand_closure D expanded')"
  by pat_completeness auto

lemma closure_pass_new:
  assumes "closure_pass D expanded \<noteq> expanded"
  shows "\<Union> (set ` set (map snd D)) - closure_pass D expanded
           \<subset> \<Union> (set ` set (map snd D)) - expanded"
proof -
  from assms obtain d module_id where d: "d \<notin> expanded" "d \<in> set (deps_of D module_id)"
    and m: "module_id \<in> expanded"
    by (auto simp: closure_pass_def)
  then obtain ds where "map_of D module_id = Some ds" "d \<in> set ds"
    by (cases "map_of D module_id") (auto simp: deps_of_def)
  then have "d \<in> \<Union> (set ` set (map snd D))"
    by (auto dest!: map_of_SomeD intro: rev_bexI)
  moreover have "d \<in> closure_pass D expanded"
    using d m by (auto simp: closure_pass_def)
  ultimately show ?thesis using d(1) by (auto simp: closure_pass_def)
qed

termination expand_closure
  apply (relation "measure (\<lambda>(D, expanded). card (\<Union> (set ` set (map snd D)) - expanded))")
  subgoal by simp
  subgoal for D expanded expanded'
    using closure_pass_new[of D expanded] by (simp add: psubset_card_mono)
  done

declare expand_closure.simps [simp del]

text \<open>
  The depth-first visit. The closure \<open>visit\<close> mutates the three variables
  \<open>visiting\<close>, \<open>visited\<close> and \<open>ordered\<close> of the enclosing function; they are the
  state that is passed and returned. \<open>visit_deps\<close> is the \<open>for dependency in ...\<close> loop.
\<close>

record dfs_state =
  visiting :: "string set"
  visited :: "string set"
  ordered :: "string list"

function visit :: "dep_table \<Rightarrow> string set \<Rightarrow> string \<Rightarrow> dfs_state \<Rightarrow> dfs_state"
  and visit_deps :: "dep_table \<Rightarrow> string set \<Rightarrow> string list \<Rightarrow> dfs_state \<Rightarrow> dfs_state" where
  "visit D expanded module_id st =
     (if module_id \<in> visited st then st
      else if module_id \<in> visiting st then st
      else let st2 = visit_deps D expanded (deps_of D module_id)
                       (st\<lparr>visiting := insert module_id (visiting st)\<rparr>)
           in st2\<lparr>visiting := visiting st2 - {module_id},
                  visited := insert module_id (visited st2),
                  ordered := ordered st2 @ [module_id]\<rparr>)"
| "visit_deps D expanded [] st = st"
| "visit_deps D expanded (dependency # rest) st =
     visit_deps D expanded rest
       (if dependency \<in> expanded then visit D expanded dependency st else st)"
  by pat_completeness auto

text \<open>Termination: a call that is not answered at once moves a key of the table into
  \<open>visiting\<close>, and a finished call leaves \<open>visiting\<close> as it found it and only adds
  to \<open>visited\<close>.\<close>

lemma visit_frame_dom:
  "visit_visit_deps_dom (Inl (D, expanded, module_id, st)) \<Longrightarrow>
     visiting (visit D expanded module_id st) = visiting st \<and>
     visited st \<subseteq> visited (visit D expanded module_id st)"
  "visit_visit_deps_dom (Inr (D, expanded, ds, st)) \<Longrightarrow>
     visiting (visit_deps D expanded ds st) = visiting st \<and>
     visited st \<subseteq> visited (visit_deps D expanded ds st)"
proof (induction rule: visit_visit_deps.pinduct)
  case (1 D expanded module_id st)
  then show ?case by (auto simp: visit.psimps Let_def)
next
  case (2 D expanded st)
  then show ?case by (simp add: visit_deps.psimps)
next
  case (3 D expanded dependency rest st)
  show ?case
  proof (cases "dependency \<in> expanded")
    case True
    with 3 show ?thesis by (simp add: visit_deps.psimps) blast
  next
    case False
    with 3 show ?thesis by (simp add: visit_deps.psimps)
  qed
qed

definition dfs_measure :: "dep_table \<Rightarrow> dfs_state \<Rightarrow> nat" where
  "dfs_measure D st = card (set (map fst D) - visiting st - visited st)"

lemma dfs_measure_enter:
  assumes "module_id \<notin> visited st" "module_id \<notin> visiting st" "module_id \<in> set (map fst D)"
  shows "dfs_measure D (st\<lparr>visiting := insert module_id (visiting st)\<rparr>) < dfs_measure D st"
proof -
  have "set (map fst D) - insert module_id (visiting st) - visited st
          \<subset> set (map fst D) - visiting st - visited st"
    using assms by auto
  then show ?thesis unfolding dfs_measure_def by (intro psubset_card_mono) simp_all
qed

lemma dfs_measure_enter_unknown:
  assumes "module_id \<notin> set (map fst D)"
  shows "dfs_measure D (st\<lparr>visiting := insert module_id (visiting st)\<rparr>) = dfs_measure D st"
    and "deps_of D module_id = []"
proof -
  have "set (map fst D) - insert module_id (visiting st) - visited st
          = set (map fst D) - visiting st - visited st" using assms by auto
  then show "dfs_measure D (st\<lparr>visiting := insert module_id (visiting st)\<rparr>) = dfs_measure D st"
    by (simp add: dfs_measure_def)
  from assms have "map_of D module_id = None" by (simp add: map_of_eq_None_iff)
  then show "deps_of D module_id = []" by (simp add: deps_of_def)
qed

lemma dfs_measure_frame:
  assumes "visiting st' = visiting st" "visited st \<subseteq> visited st'"
  shows "dfs_measure D st' \<le> dfs_measure D st"
proof -
  have "set (map fst D) - visiting st' - visited st' \<subseteq> set (map fst D) - visiting st - visited st"
    using assms by auto
  then show ?thesis unfolding dfs_measure_def by (intro card_mono) simp_all
qed

termination visit
  apply (relation "inv_image (less_than <*lex*> less_than)
    (\<lambda>x. case x of
       Inl (D, expanded, module_id, st) \<Rightarrow> (dfs_measure D st, 1)
     | Inr (D, expanded, ds, st) \<Rightarrow> (dfs_measure D st, 2 * length ds))")
  subgoal by (intro wf_inv_image wf_lex_prod wf_less_than)
  subgoal for D expanded module_id st
    using dfs_measure_enter[of module_id st D] dfs_measure_enter_unknown(1)[of module_id D st]
      dfs_measure_enter_unknown(2)[of module_id D]
    by (cases "module_id \<in> set (map fst D)") auto
  subgoal by simp
  subgoal for D expanded dependency rest st
    using dfs_measure_frame[of "visit D expanded dependency st" st D]
      visit_frame_dom(1)[of D expanded dependency st]
    by (auto simp: less_Suc_eq_le)
  done

declare visit.simps [simp del]

text \<open>\<open>_build_execution_order\<close>, with the dependency table as a parameter, and the
  method itself, which uses its own table. \<open>list(expanded)\<close> is some enumeration of the
  set; \<open>_order_modules\<close> turns it back into a set at once.\<close>

definition execution_order :: "dep_table \<Rightarrow> string list \<Rightarrow> string list" where
  "execution_order D selected_modules =
     (let expanded = expand_closure D (set selected_modules);
          st0 = \<lparr>visiting = {}, visited = {}, ordered = []\<rparr>
      in ordered (fold (\<lambda>module_id st. visit D expanded module_id st)
                    (order_modules (sorted_list_of_set expanded)) st0))"

definition build_execution_order :: "string list \<Rightarrow> string list" where
  "build_execution_order selected_modules = execution_order dependencies selected_modules"

text \<open>The dependency relation of a table, the property that every dependency inside
  the expanded set stands before its dependent, a state extended by finished modules,
  and a rank that decreases along every edge of the static table.\<close>

definition dep_rel :: "dep_table \<Rightarrow> (string \<times> string) set" where
  "dep_rel D = {(module_id, d). d \<in> set (deps_of D module_id)}"

definition deps_before :: "dep_table \<Rightarrow> string set \<Rightarrow> string list \<Rightarrow> bool" where
  "deps_before D expanded xs \<longleftrightarrow>
     (\<forall>i < length xs. \<forall>d \<in> set (deps_of D (xs ! i)). d \<in> expanded \<longrightarrow> d \<in> set (take i xs))"

definition extends :: "dfs_state \<Rightarrow> string list \<Rightarrow> dfs_state" where
  "extends st new = st\<lparr>visited := visited st \<union> set new, ordered := ordered st @ new\<rparr>"

definition dependency_rank :: "string \<Rightarrow> nat" where
  "dependency_rank module_id =
     (if module_id = ''SpiderFoot'' \<or> module_id = ''Metagoofil'' then 2
      else if module_id = ''Recon-ng'' \<or> module_id = ''Photon'' then 1 else 0)"

subsection \<open>Running the modules\<close>

record candidate =
  import_path :: string
  class_name :: string
  cand_section :: string

definition MODULE_REGISTRY :: "(string \<times> candidate list) list" where
  "MODULE_REGISTRY =
     [(''theHarvester'',
         [\<lparr>import_path = ''intel_engine.modules.research_domain_email_enumeration'',
           class_name = ''Research_Domain_Email_Enumeration'', cand_section = ''digital''\<rparr>]),
      (''SpiderFoot'',
         [\<lparr>import_path = ''intel_engine.modules.research_automation_spiderfoot'',
           class_name = ''Research_Automation_SpiderFoot'', cand_section = ''digital''\<rparr>]),
      (''Recon-ng'',
         [\<lparr>import_path = ''intel_engine.modules.research_framework_reconng'',
           class_name = ''Research_Framework_ReconNG'', cand_section = ''intelligence''\<rparr>]),
      (''Metagoofil'',
         [\<lparr>import_path = ''intel_engine.modules.research_metadata_document'',
           class_name = ''Research_Metadata_Document_Extraction'', cand_section = ''digital''\<rparr>]),
      (''Photon'',
         [\<lparr>import_path = ''intel_engine.modules.research_web_crawling_photon'',
           class_name = ''ResearchWebCrawlingPhoton'', cand_section = ''digital''\<rparr>,
          \<lparr>import_path = ''intel_engine.modules.research_web_crawling_photon'',
           class_name = ''Research_Web_Crawling_Photon'', cand_section = ''digital''\<rparr>]),
      (''Sherlock'',
         [\<lparr>import_path = ''intel_engine.modules.research_identity_username_search'',
           class_name = ''Research_Identity_Username_Search'', cand_section = ''social''\<rparr>]),
      (''GHunt'',
         [\<lparr>import_path = ''intel_engine.modules.research_account_google_intel'',
           class_name = ''ResearchAccountGoogleIntel'', cand_section = ''digital''\<rparr>]),
      (''Skiptracer'',
         [\<lparr>import_path = ''intel_engine.modules.research_enrichment_skiptracer'',
           class_name = ''Research_Enrichment_Skiptracer'', cand_section = ''enrichment''\<rparr>]),
      (''Twint'',
         [\<lparr>import_path = ''intel_engine.modules.research_social_twitter_intelligence'',
           class_name = ''ResearchSocialTwitterIntelligence'', cand_section = ''social''\<rparr>,
          \<lparr>import_path = ''intel_engine.modules.research_twitter_activity'',
           class_name = ''ResearchSocialTwitterActivity'', cand_section = ''social''\<rparr>])]"

text \<open>
  What the orchestrator does not define is a parameter: importing a module and resolving
  the class in it, constructing an instance, the module's \<open>execute\<close> (which may change
  the profile and may raise), \<open>str\<close> of a document value, and the workspace name built
  from the clock. \<open>'w\<close> is the state of everything outside the profile, \<open>'c\<close> a class
  object (class objects are truthy) and \<open>'i\<close> a module instance.
\<close>

datatype kwarg = KLogger | KStr string

type_synonym kwargs = "(string \<times> kwarg) list"

record ('w, 'c, 'i) env =
  import_class :: "string \<Rightarrow> string \<Rightarrow> 'w \<Rightarrow> (py_exception + 'c) \<times> 'w"
  construct :: "'c \<Rightarrow> kwargs \<Rightarrow> 'w \<Rightarrow> (py_exception + 'i) \<times> 'w"
  execute :: "'i \<Rightarrow> pydict \<times> 'w \<Rightarrow> (py_exception + pyval) \<times> (pydict \<times> 'w)"
  py_str :: "pyval \<Rightarrow> string"
  workspace_name :: "string \<Rightarrow> 'w \<Rightarrow> string"

text \<open>\<open>_load_module_class\<close>. An exception of a class derived from \<open>Exception\<close> moves
  on to the next candidate; any other exception leaves the method.\<close>

fun load_candidates ::
  "('w, 'c, 'i) env \<Rightarrow> candidate list \<Rightarrow> 'w \<Rightarrow> (py_exception + ('c \<times> string) option) \<times> 'w" where
  "load_candidates env [] w = (Inr None, w)"
| "load_candidates env (c # rest) w =
     (case import_class env (import_path c) (class_name c) w of
        (Inr module_class, w') \<Rightarrow> (Inr (Some (module_class, cand_section c)), w')
      | (Inl e, w') \<Rightarrow>
          (if exc_kind_of e = ExceptionSubclass then load_candidates env rest w'
           else (Inl e, w')))"

definition load_module_class ::
  "('w, 'c, 'i) env \<Rightarrow> string \<Rightarrow> 'w \<Rightarrow> (py_exception + 'c option \<times> string) \<times> 'w" where
  "load_module_class env module_id w =
     (let candidates = (case map_of MODULE_REGISTRY module_id of None \<Rightarrow> [] | Some cs \<Rightarrow> cs)
      in if candidates = [] then (Inr (None, ''unknown''), w)
         else case load_candidates env candidates w of
                (Inl e, w') \<Rightarrow> (Inl e, w')
              | (Inr (Some (module_class, s)), w') \<Rightarrow> (Inr (Some module_class, s), w')
              | (Inr None, w') \<Rightarrow> (Inr (None, cand_section (hd candidates)), w'))"

text \<open>Truth value, \<open>x[0]\<close>, and \<open>d.get(key, {})\<close> on document values.\<close>

fun py_truthy :: "pyval \<Rightarrow> bool" where
  "py_truthy PNone = False"
| "py_truthy (PBool b) = b"
| "py_truthy (PInt i) = (i \<noteq> 0)"
| "py_truthy (PFloat x) = (x \<noteq> 0)"
| "py_truthy (PStr s) = (s \<noteq> [])"
| "py_truthy (PList xs) = (xs \<noteq> [])"
| "py_truthy (PTuple xs) = (xs \<noteq> [])"
| "py_truthy (PDict kvs) = (kvs \<noteq> [])"

fun py_first :: "pyval \<Rightarrow> py_exception + pyval" where
  "py_first (PList (x # xs)) = Inr x"
| "py_first (PList []) = Inl (Raised ExceptionSubclass ''list index out of range'')"
| "py_first (PTuple (x # xs)) = Inr x"
| "py_first (PTuple []) = Inl (Raised ExceptionSubclass ''tuple index out of range'')"
| "py_first (PStr (c # cs)) = Inr (PStr [c])"
| "py_first (PStr []) = Inl (Raised ExceptionSubclass ''string index out of range'')"
| "py_first (PDict kvs) = Inl (Raised ExceptionSubclass ''0'')"
| "py_first v =
     Inl (Raised ExceptionSubclass (CHR 0x27 # type_name v @ CHR 0x27 # '' object is not subscriptable''))"

definition profile_get_dict :: "pydict \<Rightarrow> string \<Rightarrow> pyval" where
  "profile_get_dict profile k = (case map_of profile k of None \<Rightarrow> PDict [] | Some v \<Rightarrow> v)"

text \<open>One step of \<open>_derive_reconng_target\<close>: \<open>values = section.get(key) or []\<close>, and
  if \<open>values\<close> is true, \<open>str(values[0])\<close>.\<close>

definition first_of ::
  "('w, 'c, 'i) env \<Rightarrow> pyval \<Rightarrow> string \<Rightarrow> py_exception + string option" where
  "first_of env section_value key =
     (case py_get section_value key of
        Inl e \<Rightarrow> Inl e
      | Inr v \<Rightarrow>
          (let vs = (if py_truthy v then v else PList [])
           in if py_truthy vs
              then (case py_first vs of Inl e \<Rightarrow> Inl e | Inr x \<Rightarrow> Inr (Some (py_str env x)))
              else Inr None))"

definition derive_reconng_target ::
  "('w, 'c, 'i) env \<Rightarrow> pydict \<Rightarrow> py_exception + (string option \<times> string option)" where
  "derive_reconng_target env profile =
     (case first_of env (profile_get_dict profile ''digital'') ''domains'' of
        Inl e \<Rightarrow> Inl e
      | Inr (Some t) \<Rightarrow> Inr (Some ''domain'', Some t)
      | Inr None \<Rightarrow>
     (case first_of env (profile_get_dict profile ''business'') ''company_names'' of
        Inl e \<Rightarrow> Inl e
      | Inr (Some t) \<Rightarrow> Inr (Some ''company'', Some t)
      | Inr None \<Rightarrow>
     (case first_of env (profile_get_dict profile ''contact'') ''emails'' of
        Inl e \<Rightarrow> Inl e
      | Inr (Some t) \<Rightarrow> Inr (Some ''contact'', Some t)
      | Inr None \<Rightarrow>
     (case first_of env (profile_get_dict profile ''contact'') ''phones'' of
        Inl e \<Rightarrow> Inl e
      | Inr (Some t) \<Rightarrow> Inr (Some ''contact'', Some t)
      | Inr None \<Rightarrow>
     (case py_get (profile_get_dict profile ''identity'') ''full_name'' of
        Inl e \<Rightarrow> Inl e
      | Inr full_name \<Rightarrow>
          (if py_truthy full_name then Inr (Some ''contact'', Some (py_str env full_name))
           else Inr (None, None)))))))"

text \<open>\<open>_prepare_module_kwargs\<close>: the keyword arguments and the reason to skip, if any.\<close>

definition prepare_module_kwargs ::
  "('w, 'c, 'i) env \<Rightarrow> string \<Rightarrow> pydict \<Rightarrow> 'w \<Rightarrow> py_exception + (kwargs \<times> string option)" where
  "prepare_module_kwargs env module_id profile w =
     (if module_id \<noteq> ''Recon-ng'' then Inr ([(''logger'', KLogger)], None)
      else case derive_reconng_target env profile of
             Inl e \<Rightarrow> Inl e
           | Inr (target_type, target_value) \<Rightarrow>
               (case (target_type, target_value) of
                  (Some tt, Some tv) \<Rightarrow>
                    (if tv = [] \<or> tt = []
                     then Inr ([], Some ''No suitable target found for Recon-ng execution.'')
                     else Inr ([(''logger'', KLogger),
                                (''workspace_name'', KStr (workspace_name env tv w)),
                                (''target'', KStr tv), (''target_type'', KStr tt)], None))
                | _ \<Rightarrow> Inr ([], Some ''No suitable target found for Recon-ng execution.'')))"

record exec_record =
  module :: string
  status :: string
  summary :: string
  profile_section :: string
  output_keys :: "string list"

text \<open>The \<open>try\<close> block of \<open>_run_module\<close>: its result or the exception it raised, and
  the state it left.\<close>

definition run_module_try ::
  "('w, 'c, 'i) env \<Rightarrow> string \<Rightarrow> 'c \<Rightarrow> string \<Rightarrow> pydict \<times> 'w
     \<Rightarrow> (py_exception + exec_record) \<times> (pydict \<times> 'w)" where
  "run_module_try env module_id module_class section \<sigma> =
     (case \<sigma> of (profile, w) \<Rightarrow>
      case prepare_module_kwargs env module_id profile w of
        Inl e \<Rightarrow> (Inl e, \<sigma>)
      | Inr (kw, skip_reason) \<Rightarrow>
          (if skip_reason \<noteq> None \<and> skip_reason \<noteq> Some []
           then (Inr \<lparr>module = module_id, status = ''skipped'', summary = the skip_reason,
                      profile_section = section, output_keys = []\<rparr>, \<sigma>)
           else case construct env module_class kw w of
                  (Inl e, w') \<Rightarrow> (Inl e, (profile, w'))
                | (Inr inst, w') \<Rightarrow>
                    (case execute env inst (profile, w') of
                       (Inl e, \<sigma>') \<Rightarrow> (Inl e, \<sigma>')
                     | (Inr output, \<sigma>') \<Rightarrow>
                         (Inr \<lparr>module = module_id, status = ''completed'',
                               summary = ''Module executed successfully.'',
                               profile_section = section,
                               output_keys =
                                 (case output of PDict kvs \<Rightarrow> map fst kvs | _ \<Rightarrow> [])\<rparr>,
                          \<sigma>'))))"

text \<open>\<open>_run_module\<close>: \<open>except Exception\<close> turns an exception of a class derived from
  \<open>Exception\<close> into a record; any other exception leaves the method.\<close>

definition run_module ::
  "('w, 'c, 'i) env \<Rightarrow> string \<Rightarrow> pydict \<times> 'w \<Rightarrow> (py_exception + exec_record) \<times> (pydict \<times> 'w)" where
  "run_module env module_id \<sigma> =
     (case \<sigma> of (profile, w) \<Rightarrow>
      case load_module_class env module_id w of
        (Inl e, w') \<Rightarrow> (Inl e, (profile, w'))
      | (Inr (None, section), w') \<Rightarrow>
          (Inr \<lparr>module = module_id, status = ''unavailable'',
                summary = ''Module implementation not found.'',
                profile_section = section, output_keys = []\<rparr>, (profile, w'))
      | (Inr (Some module_class, section), w') \<Rightarrow>
          (case run_module_try env module_id module_class section (profile, w') of
             (Inr r, \<sigma>') \<Rightarrow> (Inr r, \<sigma>')
           | (Inl exc, \<sigma>') \<Rightarrow>
               (if exc_kind_of exc = ExceptionSubclass
                then (Inr \<lparr>module = module_id, status = ''failed'', summary = exc_str exc,
                           profile_section = section, output_keys = []\<rparr>, \<sigma>')
                else (Inl exc, \<sigma>'))))"

text \<open>The loop of \<open>_execute_impl\<close> over \<open>execution_order\<close>; \<open>module_results\<close> is the
  accumulator.\<close>

fun run_modules ::
  "('w, 'c, 'i) env \<Rightarrow> string list \<Rightarrow> pydict \<times> 'w \<Rightarrow> exec_record list
     \<Rightarrow> (py_exception + exec_record list) \<times> (pydict \<times> 'w)" where
  "run_modules env [] \<sigma> module_results = (Inr module_results, \<sigma>)"
| "run_modules env (module_id # rest) \<sigma> module_results =
     (case run_module env module_id \<sigma> of
        (Inl e, \<sigma>') \<Rightarrow> (Inl e, \<sigma>')
      | (Inr result_entry, \<sigma>') \<Rightarrow> run_modules env rest \<sigma>' (module_results @ [result_entry]))"


definition raising_env :: "py_exception \<Rightarrow> (unit, unit, unit) env" where
  "raising_env exc =
     \<lparr>import_class = (\<lambda>path cls w. (Inr (), w)),
      construct = (\<lambda>c kw w. (Inr (), w)),
      execute = (\<lambda>i \<sigma>. (Inl exc, \<sigma>)),
      py_str = (\<lambda>v. []),
      workspace_name = (\<lambda>s w. s)\<rparr>"


section \<open>Rounding to a double is monotone\<close>

lemma rhe_bounds: "\<lfloor>x\<rfloor> \<le> round_half_even x \<and> round_half_even x \<le> \<lfloor>x\<rfloor> + 1"
  by (simp add: round_half_even_def Let_def)

lemma rhe_of_int: "round_half_even (of_int n) = n"
  by (simp add: round_half_even_def Let_def)

lemma rhe_mono: assumes "x \<le> y" shows "round_half_even x \<le> round_half_even y"
proof (cases "\<lfloor>x\<rfloor> < \<lfloor>y\<rfloor>")
  case True
  have "round_half_even x \<le> \<lfloor>x\<rfloor> + 1" using rhe_bounds by blast
  also have "\<dots> \<le> \<lfloor>y\<rfloor>" using True by simp
  also have "\<dots> \<le> round_half_even y" using rhe_bounds by blast
  finally show ?thesis .
next
  case False
  have "\<lfloor>x\<rfloor> \<le> \<lfloor>y\<rfloor>" using assms by (rule floor_mono)
  with False have eq: "\<lfloor>x\<rfloor> = \<lfloor>y\<rfloor>" by simp
  have "x - of_int \<lfloor>y\<rfloor> \<le> y - of_int \<lfloor>y\<rfloor>" using assms by simp
  then show ?thesis
    unfolding round_half_even_def Let_def eq by auto
qed

lemma pow2_powi: "pow2 k = 2 powi k"
  by (simp add: pow2_def power_int_def inverse_eq_divide power_one_over)

lemma pow2_pos: "0 < pow2 k"
  by (simp add: pow2_powi)

lemma pow2_add: "pow2 (a + b) = pow2 a * pow2 b"
  by (simp add: pow2_powi power_int_add)

lemma pow2_mono: "a \<le> b \<Longrightarrow> pow2 a \<le> pow2 b"
  by (simp add: pow2_powi power_int_increasing)

lemma pow2_nat: "pow2 (int n) = 2 ^ n"
  by (simp add: pow2_def)

lemma pow2_neg_nat: "pow2 (- int n) = 1 / 2 ^ n"
  by (simp add: pow2_powi power_int_minus inverse_eq_divide)

lemma binade_bounds:
  assumes "0 < a"
  shows "pow2 (binade a) \<le> a \<and> a < pow2 (binade a + 1)"
proof (cases "1 \<le> a")
  case True
  define n where "n = nat \<lfloor>a\<rfloor>"
  have n1: "1 \<le> n" using True by (simp add: n_def le_nat_iff)
  then have npos: "0 < n" by simp
  from floorlog_bounds[where b=2 and x=n] npos
  have b: "2 ^ (floorlog 2 n - 1) \<le> n" "n < 2 ^ floorlog 2 n" by simp_all
  have fpos: "0 < floorlog 2 n" using npos by (simp add: floorlog_def)
  have be: "binade a = int (floorlog 2 n - 1)"
    using True fpos by (simp add: binade_def n_def)
  have na: "rat_of_nat n \<le> a" using True by (simp add: n_def)
  have an: "a < rat_of_nat n + 1" using True by (simp add: n_def) linarith
  have "pow2 (binade a) = 2 ^ (floorlog 2 n - 1)" by (simp add: be pow2_nat)
  also have "\<dots> = rat_of_nat (2 ^ (floorlog 2 n - 1))" by simp
  also have "\<dots> \<le> rat_of_nat n" using b(1) of_nat_le_iff by blast
  finally have lo: "pow2 (binade a) \<le> a" using na by simp
  have "binade a + 1 = int (floorlog 2 n)" using be fpos by simp
  then have "pow2 (binade a + 1) = rat_of_nat (2 ^ floorlog 2 n)" by (simp add: pow2_nat)
  moreover have "rat_of_nat (n + 1) \<le> rat_of_nat (2 ^ floorlog 2 n)"
    using b(2) of_nat_le_iff by (metis Suc_eq_plus1 Suc_leI)
  ultimately have hi: "a < pow2 (binade a + 1)" using an by simp
  show ?thesis using lo hi by simp
next
  case False
  define b where "b = 1 / a"
  have b1: "1 < b" using False assms by (simp add: b_def)
  define n where "n = nat \<lceil>b\<rceil>"
  have n2: "2 \<le> n" using b1 by (simp add: n_def le_nat_iff)
  define k where "k = floorlog 2 (n - 1)"
  from floorlog_bounds[where b=2 and x="n - 1"] n2
  have bb: "2 ^ (k - 1) \<le> n - 1" "n - 1 < 2 ^ k" by (simp_all add: k_def)
  have kpos: "0 < k" using n2 by (simp add: k_def floorlog_def)
  have be: "binade a = - int k" using False by (simp add: binade_def k_def n_def b_def)
  have bn: "b \<le> rat_of_nat n" by (simp add: n_def) linarith
  have nb: "rat_of_nat n - 1 < b" using b1 by (simp add: n_def) linarith
  have nk: "n \<le> 2 ^ k" using bb(2) by linarith
  have "rat_of_nat n \<le> 2 ^ k"
    using nk by (metis of_nat_le_iff of_nat_numeral of_nat_power)
  then have "b \<le> 2 ^ k" using bn by linarith
  then have lo: "pow2 (binade a) \<le> a"
    using assms by (simp add: be pow2_neg_nat b_def field_simps)
  have "rat_of_nat (2 ^ (k - 1)) \<le> rat_of_nat (n - 1)" using bb(1) of_nat_le_iff by blast
  moreover have "rat_of_nat (n - 1) = rat_of_nat n - 1" using n2 by (simp add: of_nat_diff)
  ultimately have "rat_of_nat (2 ^ (k - 1)) < b" using nb by linarith
  then have "2 ^ (k - 1) < b" by simp
  moreover have "binade a + 1 = - int (k - 1)" using be kpos by simp
  ultimately have hi: "a < pow2 (binade a + 1)"
    using assms by (simp add: pow2_neg_nat b_def field_simps)
  show ?thesis using lo hi by simp
qed


lemma rhe_ge_int: "of_int n \<le> x \<Longrightarrow> n \<le> round_half_even x"
  using rhe_mono[of "of_int n" x] by (simp add: rhe_of_int)

lemma rhe_le_int: "x \<le> of_int n \<Longrightarrow> round_half_even x \<le> n"
  using rhe_mono[of x "of_int n"] by (simp add: rhe_of_int)

lemma binade_mono:
  assumes "0 < x" "x \<le> y"
  shows "binade x \<le> binade y"
proof (rule ccontr)
  assume "\<not> binade x \<le> binade y"
  then have "binade y + 1 \<le> binade x" by simp
  then have "pow2 (binade y + 1) \<le> pow2 (binade x)" by (rule pow2_mono)
  moreover have "y < pow2 (binade y + 1)" using binade_bounds[of y] assms by simp
  moreover have "pow2 (binade x) \<le> x" using binade_bounds[of x] assms by simp
  ultimately show False using assms by linarith
qed

lemma fl_pos_eq:
  "0 < x \<Longrightarrow>
   fl x = of_int (round_half_even (x / pow2 (binade x - 52))) * pow2 (binade x - 52)"
  by (simp add: fl_def Let_def)

lemma fl_minus: "fl (- x) = - fl x"
  by (simp add: fl_def Let_def sgn_minus)

lemma fl_zero: "fl 0 = 0"
  by (simp add: fl_def)

lemma fl_lower:
  assumes "0 < x"
  shows "pow2 (binade x) \<le> fl x"
proof -
  define u where "u = pow2 (binade x - 52)"
  have upos: "0 < u" by (simp add: u_def pow2_pos)
  have split: "pow2 (binade x) = pow2 52 * u"
    using pow2_add[of 52 "binade x - 52"] by (simp add: u_def)
  have p52: "pow2 52 = of_int (2 ^ 52)" by (simp add: pow2_def)
  have "pow2 52 * u \<le> x" using binade_bounds[of x] assms split by simp
  then have "of_int (2 ^ 52) \<le> x / u" using upos p52 by (simp add: field_simps)
  then have "2 ^ 52 \<le> round_half_even (x / u)" by (rule rhe_ge_int)
  then have "rat_of_int (2 ^ 52) \<le> of_int (round_half_even (x / u))"
    using of_int_le_iff by blast
  then have "rat_of_int (2 ^ 52) * u \<le> of_int (round_half_even (x / u)) * u"
    using upos by (simp only: mult_le_cancel_right_pos)
  then show ?thesis using fl_pos_eq[OF assms] split p52 by (simp add: u_def)
qed

lemma fl_upper:
  assumes "0 < x"
  shows "fl x \<le> pow2 (binade x + 1)"
proof -
  define u where "u = pow2 (binade x - 52)"
  have upos: "0 < u" by (simp add: u_def pow2_pos)
  have split: "pow2 (binade x + 1) = pow2 53 * u"
    using pow2_add[of 53 "binade x - 52"] by (simp add: u_def add.commute)
  have p53: "pow2 53 = of_int (2 ^ 53)" by (simp add: pow2_def)
  have "x \<le> pow2 53 * u" using binade_bounds[of x] assms split by simp
  then have "x / u \<le> of_int (2 ^ 53)" using upos p53 by (simp add: field_simps)
  then have "round_half_even (x / u) \<le> 2 ^ 53" by (rule rhe_le_int)
  then have "rat_of_int (round_half_even (x / u)) \<le> of_int (2 ^ 53)"
    using of_int_le_iff by blast
  then have "of_int (round_half_even (x / u)) * u \<le> rat_of_int (2 ^ 53) * u"
    using upos by (simp only: mult_le_cancel_right_pos)
  then show ?thesis using fl_pos_eq[OF assms] split p53 by (simp add: u_def)
qed

lemma fl_mono_pos:
  assumes "0 < x" "x \<le> y"
  shows "fl x \<le> fl y"
proof (cases "binade x = binade y")
  case True
  define u where "u = pow2 (binade y - 52)"
  have upos: "0 < u" by (simp add: u_def pow2_pos)
  have ypos: "0 < y" using assms by simp
  have "x / u \<le> y / u" using assms upos by (simp add: divide_right_mono)
  then have "round_half_even (x / u) \<le> round_half_even (y / u)" by (rule rhe_mono)
  then have "rat_of_int (round_half_even (x / u)) \<le> of_int (round_half_even (y / u))"
    using of_int_le_iff by blast
  then have "of_int (round_half_even (x / u)) * u \<le> of_int (round_half_even (y / u)) * u"
    using upos by (simp only: mult_le_cancel_right_pos)
  then show ?thesis
    using fl_pos_eq[OF assms(1)] fl_pos_eq[OF ypos] True by (simp add: u_def)
next
  case False
  have ypos: "0 < y" using assms by simp
  have "binade x \<le> binade y" using assms by (rule binade_mono)
  with False have "binade x + 1 \<le> binade y" by simp
  then have "pow2 (binade x + 1) \<le> pow2 (binade y)" by (rule pow2_mono)
  then show ?thesis using fl_upper[OF assms(1)] fl_lower[OF ypos] by linarith
qed

lemma fl_nonneg: "0 \<le> x \<Longrightarrow> 0 \<le> fl x"
proof (cases "x = 0")
  case True
  then show ?thesis by (simp add: fl_zero)
next
  case False
  assume "0 \<le> x"
  with False have xpos: "0 < x" by simp
  have "0 < pow2 (binade x)" by (rule pow2_pos)
  then show ?thesis using fl_lower[OF xpos] by linarith
qed

lemma fl_mono:
  assumes "x \<le> y"
  shows "fl x \<le> fl y"
proof -
  consider "0 < x" | "x \<le> 0" "0 \<le> y" | "y < 0" by linarith
  then show ?thesis
  proof cases
    case 1
    then show ?thesis using assms by (rule fl_mono_pos)
  next
    case 2
    have "0 \<le> fl (- x)" using 2(1) by (intro fl_nonneg) simp
    then have "fl x \<le> 0" by (simp add: fl_minus)
    moreover have "0 \<le> fl y" using 2(2) by (rule fl_nonneg)
    ultimately show ?thesis by linarith
  next
    case 3
    have "fl (- y) \<le> fl (- x)" using 3 assms by (intro fl_mono_pos) simp_all
    then show ?thesis by (simp add: fl_minus)
  qed
qed

lemma py_round2_mono: "x \<le> y \<Longrightarrow> py_round2 x \<le> py_round2 y"
  unfolding py_round2_def
  by (intro fl_mono divide_right_mono) (simp_all add: rhe_mono)

section \<open>The gap analyzer\<close>

lemma update_fresh: "k \<notin> fst ` set al \<Longrightarrow> AList.update k v al = al @ [(k, v)]"
  by (induction al) auto

lemma missing_loop_dict:
  "missing_loop (PDict kvs) fs acc =
     Inr (acc @ filter (\<lambda>f. is_empty_value (case map_of kvs f of None \<Rightarrow> PNone | Some v \<Rightarrow> v)) fs)"
  by (induction fs arbitrary: acc) (simp_all add: py_get_def)

lemma missing_loop_not_dict:
  assumes "\<forall>kvs. payload \<noteq> PDict kvs" "fs \<noteq> []"
  shows "missing_loop payload fs acc = Inl (attribute_error payload ''get'')"
  using assms by (cases fs; cases payload) (simp_all add: py_get_def)

lemma section_gap_absent:
  "profile_get profile s = PNone \<Longrightarrow> \<exists>e. section_gap profile s r = Inr e"
  by (simp add: section_gap_def Let_def)

lemma section_gap_dict:
  "profile_get profile s = PDict kvs \<Longrightarrow> \<exists>e. section_gap profile s r = Inr e"
  by (simp add: section_gap_def Let_def missing_loop_dict)

lemma section_gap_no_fields: "\<exists>e. section_gap profile s [] = Inr e"
  by (simp add: section_gap_def Let_def)

lemma analyze_loop_total:
  "\<forall>(s, r) \<in> set reqs. \<exists>e. section_gap profile s r = Inr e \<Longrightarrow>
   \<exists>gaps. analyze_loop profile reqs acc = Inr gaps"
proof (induction reqs arbitrary: acc)
  case Nil
  then show ?case by simp
next
  case (Cons p reqs)
  obtain s r where p: "p = (s, r)" by (cases p)
  from Cons.prems p obtain e where e: "section_gap profile s r = Inr e" by auto
  from Cons.prems have "\<forall>(s, r) \<in> set reqs. \<exists>e. section_gap profile s r = Inr e" by simp
  from Cons.IH[OF this] show ?case by (simp add: p e)
qed

lemma analyze_loop_Inr:
  assumes "analyze_loop profile reqs acc = Inr gaps"
      and "distinct (map fst reqs)"
      and "fst ` set acc \<inter> fst ` set reqs = {}"
  shows "\<exists>new. gaps = acc @ new \<and>
           list_all2 (\<lambda>(s, r) (s', e). s' = s \<and> section_gap profile s r = Inr e) reqs new"
  using assms
proof (induction reqs arbitrary: acc)
  case Nil
  then show ?case by simp
next
  case (Cons p reqs)
  obtain s r where p: "p = (s, r)" by (cases p)
  from Cons.prems(1) p obtain e where e: "section_gap profile s r = Inr e"
    and rest: "analyze_loop profile reqs (AList.update s e acc) = Inr gaps"
    by (auto split: sum.splits)
  have fresh: "s \<notin> fst ` set acc" using Cons.prems(3) p by auto
  then have upd: "AList.update s e acc = acc @ [(s, e)]" by (rule update_fresh)
  have d: "distinct (map fst reqs)" using Cons.prems(2) by simp
  have disj: "fst ` set (acc @ [(s, e)]) \<inter> fst ` set reqs = {}"
    using Cons.prems(2,3) p by auto
  from Cons.IH[OF rest[unfolded upd] d disj]
  obtain new where new: "gaps = (acc @ [(s, e)]) @ new"
    and all2: "list_all2 (\<lambda>(s, r) (s', e). s' = s \<and> section_gap profile s r = Inr e) reqs new"
    by blast
  show ?case
    by (rule exI[of _ "(s, e) # new"]) (use new all2 e p in simp)
qed

lemma analyze_gaps_Inr:
  assumes "analyze_gaps reqs profile = Inr gaps" "distinct (map fst reqs)"
  shows "list_all2 (\<lambda>(s, r) (s', e). s' = s \<and> section_gap profile s r = Inr e) reqs gaps"
  using analyze_loop_Inr[of profile reqs "[]" gaps] assms by (simp add: analyze_gaps_def)

lemma list_all2_keys:
  "list_all2 (\<lambda>(s, r) (s', e). s' = s \<and> P s r e) reqs gaps \<Longrightarrow> map fst gaps = map fst reqs"
  by (induction reqs gaps rule: list_all2_induct) auto

lemma list_all2_entry:
  "list_all2 (\<lambda>(s, r) (s', e). s' = s \<and> P s r e) reqs gaps \<Longrightarrow> (s, r) \<in> set reqs \<Longrightarrow>
   distinct (map fst reqs) \<Longrightarrow> \<exists>e. map_of gaps s = Some e \<and> P s r e"
proof (induction reqs gaps rule: list_all2_induct)
  case Nil
  then show ?case by simp
next
  case (Cons p reqs g gaps)
  then show ?case by (cases p; cases g) (auto simp: rev_image_eqI)
qed

lemma list_all2_entry_rev:
  "list_all2 (\<lambda>(s, r) (s', e). s' = s \<and> P s r e) reqs gaps \<Longrightarrow> (s, e) \<in> set gaps \<Longrightarrow>
   \<exists>r. (s, r) \<in> set reqs \<and> P s r e"
  by (induction reqs gaps rule: list_all2_induct) auto

text \<open>
  Claim C5, as stated, fails: the data model lets a section value be a sequence, and for
  a section whose value is a list and that has a required field, \<open>section_payload.get\<close>
  raises \<open>AttributeError\<close>, which \<open>analyze_gaps\<close> does not catch.
\<close>

theorem analyze_gaps_list_section_raises:
  "analyze_gaps [(''identity'', [''full_name''])] [(''identity'', PList [])] =
     Inl (attribute_error (PList []) ''get'')"
  by (simp add: analyze_gaps_def section_gap_def profile_get_def py_get_def)

text \<open>
  Claim C5, amended: for a requirement index (a dictionary, so its keys are distinct) and
  a profile in which every section that has a required field is absent (\<open>None\<close>)
  or a mapping, \<open>analyze_gaps\<close> returns without raising, and its result has exactly
  one entry per section of the requirement index, in the index's order.
\<close>

theorem analyze_gaps_total_on_mappings:
  assumes "distinct (map fst reqs)"
      and "\<forall>(s, r) \<in> set reqs.
             r = [] \<or> profile_get profile s = PNone \<or> (\<exists>kvs. profile_get profile s = PDict kvs)"
  shows "\<exists>gaps. analyze_gaps reqs profile = Inr gaps \<and> map fst gaps = map fst reqs"
proof -
  have "\<forall>(s, r) \<in> set reqs. \<exists>e. section_gap profile s r = Inr e"
    using assms(2) section_gap_absent section_gap_dict section_gap_no_fields by fastforce
  then obtain gaps where g: "analyze_gaps reqs profile = Inr gaps"
    unfolding analyze_gaps_def using analyze_loop_total by blast
  from analyze_gaps_Inr[OF g assms(1)] have "map fst gaps = map fst reqs"
    by (rule list_all2_keys)
  with g show ?thesis by blast
qed

theorem analyze_gaps_total_on_mappings_witness:
  "distinct (map fst [(''identity'', [''full_name'', ''aliases'']), (''contact'', [])])
   \<and> (\<exists>gaps. analyze_gaps [(''identity'', [''full_name'', ''aliases'']), (''contact'', [])]
                [(''identity'', PDict [(''full_name'', PStr ''Jane Doe'')]),
                 (''contact'', PList [])] = Inr gaps
           \<and> map fst gaps = [''identity'', ''contact''])"
  using analyze_gaps_total_on_mappings
    [of "[(''identity'', [''full_name'', ''aliases'']), (''contact'', [])]"
        "[(''identity'', PDict [(''full_name'', PStr ''Jane Doe'')]), (''contact'', PList [])]"]
  by (simp add: profile_get_def)

text \<open>
  Claim C6, as stated, fails: the test is \<open>value in (None, "", [], {})\<close>, and an empty
  tuple, which is an empty sequence (an array is a list or a tuple), equals none of the
  four. A required field whose value is \<open>()\<close> is not reported missing, and the section
  counts as complete.
\<close>

theorem empty_tuple_not_missing:
  "analyze_gaps [(''identity'', [''aliases''])] [(''identity'', PDict [(''aliases'', PTuple [])])] =
     Inr [(''identity'', \<lparr>missing_fields = [], completeness = 1\<rparr>)]"
  by code_simp

text \<open>
  Claim C6, amended: when \<open>analyze_gaps\<close> returns, for a section present in the profile a
  required field is in that section's \<open>missing_fields\<close> if and only if its value is
  absent, \<open>None\<close>, the empty string, the empty list or the empty dictionary; every
  other value, the empty tuple, zero, \<open>False\<close> and non-empty containers among them, is
  not missing.
\<close>

theorem missing_field_iff_empty:
  assumes "analyze_gaps reqs profile = Inr gaps"
      and "distinct (map fst reqs)"
      and "(section, required_fields) \<in> set reqs"
      and "profile_get profile section \<noteq> PNone"
      and "f \<in> set required_fields"
  shows "\<exists>entry kvs. map_of gaps section = Some entry \<and> profile_get profile section = PDict kvs \<and>
           (f \<in> set (missing_fields entry) \<longleftrightarrow>
              map_of kvs f \<in> {None, Some PNone, Some (PStr []), Some (PList []), Some (PDict [])})"
proof -
  from list_all2_entry[OF analyze_gaps_Inr[OF assms(1,2)] assms(3,2)]
  obtain entry where m: "map_of gaps section = Some entry"
    and sg: "section_gap profile section required_fields = Inr entry" by blast
  have ne: "required_fields \<noteq> []" using assms(5) by auto
  have "\<exists>kvs. profile_get profile section = PDict kvs"
  proof (rule ccontr)
    assume "\<not> ?thesis"
    then have "\<forall>kvs. profile_get profile section \<noteq> PDict kvs" by simp
    from missing_loop_not_dict[OF this ne] sg assms(4) show False
      by (simp add: section_gap_def Let_def)
  qed
  then obtain kvs where kvs: "profile_get profile section = PDict kvs" by blast
  have "missing_fields entry =
          filter (\<lambda>f. is_empty_value (case map_of kvs f of None \<Rightarrow> PNone | Some v \<Rightarrow> v)) required_fields"
    using sg kvs by (auto simp: section_gap_def Let_def missing_loop_dict)
  then have "f \<in> set (missing_fields entry) \<longleftrightarrow>
      map_of kvs f \<in> {None, Some PNone, Some (PStr []), Some (PList []), Some (PDict [])}"
    using assms(5) by (auto simp: is_empty_value_def split: option.splits)
  with m kvs show ?thesis by blast
qed

theorem missing_field_iff_empty_witness:
  "\<exists>entry kvs.
     map_of [(''identity'', \<lparr>missing_fields = [''aliases'', ''dob''],
                              completeness = 3002399751580331 / 9007199254740992\<rparr>)]
       ''identity'' = Some entry \<and>
     profile_get [(''identity'', PDict [(''full_name'', PInt 0), (''aliases'', PList [])])]
       ''identity'' = PDict kvs \<and>
     (''full_name'' \<in> set (missing_fields entry) \<longleftrightarrow>
        map_of kvs ''full_name'' \<in>
          {None, Some PNone, Some (PStr []), Some (PList []), Some (PDict [])})"
proof -
  have run: "analyze_gaps [(''identity'', [''full_name'', ''aliases'', ''dob''])]
               [(''identity'', PDict [(''full_name'', PInt 0), (''aliases'', PList [])])] =
             Inr [(''identity'', \<lparr>missing_fields = [''aliases'', ''dob''],
                                  completeness = 3002399751580331 / 9007199254740992\<rparr>)]"
    by code_simp
  show ?thesis
    by (rule missing_field_iff_empty[OF run, of "''identity''" "[''full_name'', ''aliases'', ''dob'']"])
       (simp_all add: profile_get_def)
qed

text \<open>The completeness of every entry of a gap report lies between 0 and 1.\<close>

lemma fl_one: "fl 1 = 1"
  by code_simp

lemma py_truediv_nonneg: "0 \<le> py_truediv n d"
  unfolding py_truediv_def by (rule fl_nonneg) simp

lemma section_gap_completeness_range:
  assumes "section_gap profile s r = Inr e"
  shows "0 \<le> completeness e \<and> completeness e \<le> 1"
proof -
  have I: "\<exists>n' d'. max 0 (fl (1 - py_truediv n d)) = max 0 (fl (1 - py_truediv n' d'))"
    for n d by blast
  have "\<exists>n d. completeness e = max 0 (fl (1 - py_truediv n d))"
    using assms by (auto simp: section_gap_def Let_def split: sum.splits if_splits intro: I)
  then obtain n d where c: "completeness e = max 0 (fl (1 - py_truediv n d))" by blast
  have "1 - py_truediv n d \<le> 1" using py_truediv_nonneg[of n d] by simp
  then have "fl (1 - py_truediv n d) \<le> fl 1" by (rule fl_mono)
  then show ?thesis unfolding c by (simp add: fl_one)
qed

lemma update_set_subset: "set (AList.update k v al) \<subseteq> insert (k, v) (set al)"
  by (induction al) auto

lemma analyze_loop_entries:
  "analyze_loop profile reqs acc = Inr gaps \<Longrightarrow> (s, e) \<in> set gaps \<Longrightarrow>
   (s, e) \<in> set acc \<or> (\<exists>r. section_gap profile s r = Inr e)"
proof (induction reqs arbitrary: acc)
  case Nil
  then show ?case by simp
next
  case (Cons p reqs)
  obtain s' r' where p: "p = (s', r')" by (cases p)
  from Cons.prems(1) p obtain e' where e': "section_gap profile s' r' = Inr e'"
    and rest: "analyze_loop profile reqs (AList.update s' e' acc) = Inr gaps"
    by (auto split: sum.splits)
  from Cons.IH[OF rest Cons.prems(2)] update_set_subset[of s' e' acc] e'
  show ?case by auto
qed

lemma analyze_gaps_completeness_range:
  assumes "analyze_gaps reqs profile = Inr gaps" "(s, e) \<in> set gaps"
  shows "0 \<le> completeness e \<and> completeness e \<le> 1"
  using analyze_loop_entries[of profile reqs "[]" gaps s e] assms
    section_gap_completeness_range by (auto simp: analyze_gaps_def)

section \<open>The suggestion engine\<close>

lemma candidates_loop_elem:
  "(name, score) \<in> set (candidates_loop str_lower executed mr n ems acc) \<Longrightarrow>
   (name, score) \<in> set acc \<or>
   (\<exists>rank. (rank, name) \<in> set ems \<and> score = module_score mr rank n \<and> str_lower name \<notin> executed)"
proof (induction ems arbitrary: acc)
  case Nil
  then show ?case by simp
next
  case (Cons p ems)
  obtain rank m where p: "p = (rank, m)" by (cases p)
  from Cons.IH[of "if str_lower m \<in> executed then acc else acc @ [(m, module_score mr rank n)]"]
    Cons.prems p
  show ?case by (auto split: if_splits)
qed

lemma sections_loop_elem:
  "(name, score) \<in> set (sections_loop str_lower executed gaps acc) \<Longrightarrow>
   (name, score) \<in> set acc \<or>
   (\<exists>section entry modules rank.
      (section, entry) \<in> set gaps \<and> map_of section_modules section = Some modules \<and>
      rank < length modules \<and> modules ! rank = name \<and> str_lower name \<notin> executed \<and>
      0 < fl (1 - completeness entry) \<and>
      score = module_score (fl (1 - completeness entry)) rank (length (missing_fields entry)))"
proof (induction gaps arbitrary: acc)
  case Nil
  then show ?case by simp
next
  case (Cons g gaps)
  obtain sec details where g: "g = (sec, details)" by (cases g)
  define modules where
    "modules = (case map_of section_modules sec of None \<Rightarrow> [] | Some ms \<Rightarrow> ms)"
  define mr where "mr = fl (1 - completeness details)"
  show ?case
  proof (cases "modules = [] \<or> mr \<le> 0")
    case True
    then have "sections_loop str_lower executed (g # gaps) acc = sections_loop str_lower executed gaps acc"
      by (auto simp: g modules_def mr_def Let_def)
    with Cons.prems Cons.IH[of acc] show ?thesis by fastforce
  next
    case False
    then have ms: "map_of section_modules sec = Some modules"
      by (auto simp: modules_def split: option.splits)
    let ?acc' = "candidates_loop str_lower executed mr (length (missing_fields details))
                   (enumerate 0 modules) acc"
    from False have "sections_loop str_lower executed (g # gaps) acc = sections_loop str_lower executed gaps ?acc'"
      by (auto simp: g modules_def mr_def Let_def)
    with Cons.prems Cons.IH[of ?acc']
    consider "(name, score) \<in> set ?acc'"
      | "\<exists>section entry modules rank.
          (section, entry) \<in> set gaps \<and> map_of section_modules section = Some modules \<and>
          rank < length modules \<and> modules ! rank = name \<and> str_lower name \<notin> executed \<and>
          0 < fl (1 - completeness entry) \<and>
          score = module_score (fl (1 - completeness entry)) rank (length (missing_fields entry))"
      by auto
    then show ?thesis
    proof cases
      case 1
      from candidates_loop_elem[OF 1]
      show ?thesis
      proof
        assume "(name, score) \<in> set acc"
        then show ?thesis by simp
      next
        assume "\<exists>rank. (rank, name) \<in> set (enumerate 0 modules) \<and>
                  score = module_score mr rank (length (missing_fields details)) \<and>
                  str_lower name \<notin> executed"
        then obtain rank where r: "(rank, name) \<in> set (enumerate 0 modules)"
          "score = module_score mr rank (length (missing_fields details))"
          "str_lower name \<notin> executed" by blast
        from r(1) have "rank < length modules" "modules ! rank = name"
          by (simp_all add: in_set_enumerate_eq)
        moreover have "0 < fl (1 - completeness details)" using False by (simp add: mr_def)
        ultimately show ?thesis using r(2,3) ms g unfolding mr_def
          by (intro disjI2 exI[of _ sec] exI[of _ details] exI[of _ modules] exI[of _ rank])
             simp
      qed
    next
      case 2
      then show ?thesis by fastforce
    qed
  qed
qed

text \<open>
  Claim C9: whenever \<open>suggest_modules\<close> returns a list, no suggestion in it has a module
  name whose lower-casing equals the lower-casing of a name in \<open>history\<close>
  (\<open>history=None\<close> is the empty history). This holds whatever function \<open>str.lower\<close>
  is, so for Python's Unicode lower-casing.
\<close>

theorem suggest_modules_excludes_history:
  assumes "suggest_modules str_lower reqs profile history = Inr suggestions"
      and "(name, score) \<in> set suggestions"
      and "h \<in> set (case history of None \<Rightarrow> [] | Some hs \<Rightarrow> hs)"
  shows "str_lower name \<noteq> str_lower h"
proof -
  define executed where
    "executed = set (map str_lower (case history of None \<Rightarrow> [] | Some hs \<Rightarrow> hs))"
  from assms(1) obtain gaps where
    s: "suggestions = sort_suggestions (sections_loop str_lower executed gaps [])"
    by (auto simp: suggest_modules_def executed_def Let_def split: sum.splits)
  have "(name, score) \<in> set (sections_loop str_lower executed gaps [])"
    using assms(2) s by (simp add: sort_suggestions_def)
  from sections_loop_elem[OF this] have "str_lower name \<notin> executed" by auto
  moreover have "str_lower h \<in> executed" using assms(3) by (simp add: executed_def)
  ultimately show ?thesis by auto
qed

text \<open>
  Claim C7, amended: every suggestion emitted by \<open>suggest_modules\<close> is a candidate of the
  catalog list of a section of the gap report, at some rank, and carries the score
  \<open>round(missing_ratio * 100 * priority_multiplier * field_pressure, 2)\<close>, the product
  being evaluated left to right in double arithmetic with \<open>missing_ratio = 1 - completeness\<close>
  of that section, \<open>priority_multiplier = max(0.5, 1 - rank * 0.1)\<close> and
  \<open>field_pressure = 1 + 0.05 * len(missing_fields)\<close>.
\<close>

theorem suggestion_score_rounded:
  assumes "suggest_modules str_lower reqs profile history = Inr suggestions"
      and "(name, score) \<in> set suggestions"
  shows "\<exists>gaps section entry modules rank.
           analyze_gaps reqs profile = Inr gaps \<and> (section, entry) \<in> set gaps \<and>
           map_of section_modules section = Some modules \<and>
           rank < length modules \<and> modules ! rank = name \<and>
           score = py_round2 (raw_score (fl (1 - completeness entry)) rank
                                (length (missing_fields entry)))"
proof -
  define executed where
    "executed = set (map str_lower (case history of None \<Rightarrow> [] | Some hs \<Rightarrow> hs))"
  from assms(1) obtain gaps where g: "analyze_gaps reqs profile = Inr gaps"
    and s: "suggestions = sort_suggestions (sections_loop str_lower executed gaps [])"
    by (auto simp: suggest_modules_def executed_def Let_def split: sum.splits)
  have "(name, score) \<in> set (sections_loop str_lower executed gaps [])"
    using assms(2) s by (simp add: sort_suggestions_def)
  from sections_loop_elem[OF this] g show ?thesis
    unfolding module_score_def by fastforce
qed

lemma float_of_nat_mono: "m \<le> n \<Longrightarrow> float_of_nat m \<le> float_of_nat n"
  by (simp add: float_of_nat_def fl_mono)

lemma float_of_nat_nonneg: "0 \<le> float_of_nat n"
  by (simp add: float_of_nat_def fl_nonneg)

lemma priority_multiplier_antimono:
  assumes "r1 \<le> r2"
  shows "priority_multiplier r2 \<le> priority_multiplier r1"
proof -
  have c: "0 \<le> fl (1 / 10)" by (rule fl_nonneg) simp
  have "float_of_nat r1 * fl (1 / 10) \<le> float_of_nat r2 * fl (1 / 10)"
    using float_of_nat_mono[OF assms] c by (rule mult_right_mono)
  then have "fl (float_of_nat r1 * fl (1 / 10)) \<le> fl (float_of_nat r2 * fl (1 / 10))"
    by (rule fl_mono)
  then have "1 - fl (float_of_nat r2 * fl (1 / 10)) \<le> 1 - fl (float_of_nat r1 * fl (1 / 10))"
    by simp
  then have "fl (1 - fl (float_of_nat r2 * fl (1 / 10))) \<le> fl (1 - fl (float_of_nat r1 * fl (1 / 10)))"
    by (rule fl_mono)
  then show ?thesis unfolding priority_multiplier_def by (rule max.mono[OF order_refl])
qed

lemma field_pressure_nonneg: "0 \<le> field_pressure n"
proof -
  have "0 \<le> fl (1 / 20)" by (rule fl_nonneg) simp
  then have "0 \<le> float_of_nat n * fl (1 / 20)"
    using float_of_nat_nonneg by (rule mult_nonneg_nonneg[rotated])
  then have "0 \<le> fl (float_of_nat n * fl (1 / 20))" by (rule fl_nonneg)
  then show ?thesis unfolding field_pressure_def by (intro fl_nonneg) simp
qed

lemma module_score_antimono:
  assumes "0 \<le> mr" "r1 \<le> r2"
  shows "module_score mr r2 n \<le> module_score mr r1 n"
proof -
  have b: "0 \<le> fl (mr * 100)" using assms(1) by (intro fl_nonneg) simp
  have "fl (mr * 100) * priority_multiplier r2 \<le> fl (mr * 100) * priority_multiplier r1"
    using priority_multiplier_antimono[OF assms(2)] b by (rule mult_left_mono)
  then have "fl (fl (mr * 100) * priority_multiplier r2) \<le> fl (fl (mr * 100) * priority_multiplier r1)"
    by (rule fl_mono)
  then have "fl (fl (mr * 100) * priority_multiplier r2) * field_pressure n
             \<le> fl (fl (mr * 100) * priority_multiplier r1) * field_pressure n"
    using field_pressure_nonneg by (rule mult_right_mono)
  then have "raw_score mr r2 n \<le> raw_score mr r1 n"
    unfolding raw_score_def by (rule fl_mono)
  then show ?thesis unfolding module_score_def by (rule py_round2_mono)
qed

lemma catalog_position_unique:
  assumes "map_of section_modules a = Some ma" "ra < length ma"
      and "map_of section_modules b = Some mb" "rb < length mb"
      and "ma ! ra = mb ! rb"
  shows "a = b \<and> ra = rb"
  using assms by (auto simp: section_modules_def less_Suc_eq split: if_splits)

lemma analyze_loop_distinct_keys:
  "analyze_loop profile reqs acc = Inr gaps \<Longrightarrow> distinct (map fst acc) \<Longrightarrow>
   distinct (map fst gaps)"
proof (induction reqs arbitrary: acc)
  case Nil
  then show ?case by simp
next
  case (Cons p reqs)
  obtain s r where p: "p = (s, r)" by (cases p)
  from Cons.prems(1) p obtain e where
    rest: "analyze_loop profile reqs (AList.update s e acc) = Inr gaps"
    by (auto split: sum.splits)
  have "distinct (map fst (AList.update s e acc))"
    using Cons.prems(2) by (rule AList.distinct_update)
  from Cons.IH[OF rest this] show ?case .
qed

lemma analyze_gaps_distinct_keys:
  "analyze_gaps reqs profile = Inr gaps \<Longrightarrow> distinct (map fst gaps)"
  using analyze_loop_distinct_keys[of profile reqs "[]" gaps] by (simp add: analyze_gaps_def)

text \<open>
  Claim C8: the list returned by \<open>suggest_modules\<close> is sorted by score, descending;
  the suggestions of any one score keep the order in which the loops emitted them; and
  of two suggestions in the list whose modules stand in the catalog list of one section,
  the one at the lower rank has a score at least that of the one at the higher rank.
\<close>

theorem suggest_modules_sorted_stable:
  assumes "suggest_modules str_lower reqs profile history = Inr suggestions"
  shows "sorted_wrt (\<lambda>a b. snd b \<le> snd a) suggestions \<and>
         (\<exists>gaps. analyze_gaps reqs profile = Inr gaps \<and>
            (\<forall>v. filter (\<lambda>item. snd item = v) suggestions =
                 filter (\<lambda>item. snd item = v)
                   (sections_loop str_lower
                      (set (map str_lower (case history of None \<Rightarrow> [] | Some h \<Rightarrow> h)))
                      gaps []))) \<and>
         (\<forall>section modules r1 r2 s1 s2.
            map_of section_modules section = Some modules \<and> r1 \<le> r2 \<and> r2 < length modules \<and>
            (modules ! r1, s1) \<in> set suggestions \<and> (modules ! r2, s2) \<in> set suggestions
            \<longrightarrow> s2 \<le> s1)"
proof -
  define executed where
    "executed = set (map str_lower (case history of None \<Rightarrow> [] | Some h \<Rightarrow> h))"
  from assms(1) obtain gaps where g: "analyze_gaps reqs profile = Inr gaps"
    and s: "suggestions = sort_key (\<lambda>item. - snd item) (sections_loop str_lower executed gaps [])"
    by (auto simp: suggest_modules_def sort_suggestions_def executed_def Let_def
             split: sum.splits)
  have "sorted (map (\<lambda>item. - snd item) suggestions)"
    unfolding s by (rule sorted_sort_key)
  then have srt: "sorted_wrt (\<lambda>a b. snd b \<le> snd a) suggestions"
    by (simp add: sorted_map)
  have stable: "filter (\<lambda>item. snd item = v) suggestions =
                filter (\<lambda>item. snd item = v) (sections_loop str_lower executed gaps [])" for v
  proof -
    have "filter (\<lambda>item. - snd item = - v) suggestions =
          filter (\<lambda>item. - snd item = - v) (sections_loop str_lower executed gaps [])"
      unfolding s by (rule sort_key_stable)
    then show ?thesis by simp
  qed
  have origin: "\<exists>entry. (sec, entry) \<in> set gaps \<and>
                  sc = module_score (fl (1 - completeness entry)) r (length (missing_fields entry))"
    if m: "map_of section_modules sec = Some modules" and r: "r < length modules"
      and el: "(modules ! r, sc) \<in> set suggestions" for sec modules r sc
  proof -
    from el have "(modules ! r, sc) \<in> set (sections_loop str_lower executed gaps [])"
      by (simp add: s)
    from sections_loop_elem[OF this] obtain sec' entry modules' rank where
      o: "(sec', entry) \<in> set gaps" "map_of section_modules sec' = Some modules'"
      "rank < length modules'" "modules' ! rank = modules ! r"
      "sc = module_score (fl (1 - completeness entry)) rank (length (missing_fields entry))"
      by auto
    from catalog_position_unique[OF o(2,3) m r o(4)] have "sec' = sec" "rank = r" by simp_all
    with o(1,5) show ?thesis by blast
  qed
  have rank: "s2 \<le> s1"
    if m: "map_of section_modules sec = Some modules" and le: "r1 \<le> r2"
      and r2: "r2 < length modules"
      and e1: "(modules ! r1, s1) \<in> set suggestions"
      and e2: "(modules ! r2, s2) \<in> set suggestions" for sec modules r1 r2 s1 s2
  proof -
    from le r2 have r1: "r1 < length modules" by simp
    from origin[OF m r1 e1] obtain entry1 where
      a: "(sec, entry1) \<in> set gaps"
      "s1 = module_score (fl (1 - completeness entry1)) r1 (length (missing_fields entry1))"
      by blast
    from origin[OF m r2 e2] obtain entry2 where
      b: "(sec, entry2) \<in> set gaps"
      "s2 = module_score (fl (1 - completeness entry2)) r2 (length (missing_fields entry2))"
      by blast
    have "entry1 = entry2"
      using analyze_gaps_distinct_keys[OF g] a(1) b(1) by (rule eq_key_imp_eq_value)
    moreover from analyze_gaps_completeness_range[OF g a(1)]
    have "0 \<le> fl (1 - completeness entry1)" by (intro fl_nonneg) simp
    ultimately show ?thesis
      unfolding a(2) b(2) using le by (simp add: module_score_antimono)
  qed
  from srt g stable rank show ?thesis unfolding executed_def by blast
qed

subsection \<open>A run of the suggestion engine\<close>

text \<open>The section \<open>identity\<close> requires three fields and the profile fills one of them.\<close>

lemma example_gaps:
  "analyze_gaps [(''identity'', [''full_name'', ''aliases'', ''dob''])]
     [(''identity'', PDict [(''full_name'', PStr ''Jane Doe'')])] =
   Inr [(''identity'', \<lparr>missing_fields = [''aliases'', ''dob''],
                        completeness = 3002399751580331 / 9007199254740992\<rparr>)]"
  by code_simp

lemma example_suggestions:
  "suggest_modules ascii_lower [(''identity'', [''full_name'', ''aliases'', ''dob''])]
     [(''identity'', PDict [(''full_name'', PStr ''Jane Doe'')])] None =
   Inr [(''Identity_DeepDive'', 5160140010548101 / 70368744177664), (''Alias_Expansion'', 66)]"
  by code_simp

lemma example_suggestions_history:
  "suggest_modules ascii_lower [(''identity'', [''full_name'', ''aliases'', ''dob''])]
     [(''identity'', PDict [(''full_name'', PStr ''Jane Doe'')])] (Some [''IDENTITY_deepdive'']) =
   Inr [(''Alias_Expansion'', 66)]"
  by code_simp

lemma example_raw_score:
  "raw_score (fl (1 - 3002399751580331 / 9007199254740992)) 0 2 =
     5160374573028693 / 70368744177664"
  by code_simp

theorem suggest_modules_excludes_history_witness:
  "ascii_lower ''Alias_Expansion'' \<noteq> ascii_lower ''IDENTITY_deepdive''"
  by (rule suggest_modules_excludes_history[OF example_suggestions_history, of _ 66]) simp_all

text \<open>
  Claim C7, as stated, fails: the source rounds the product to two decimals. With two of
  three required fields missing the first candidate's product is the double
  73.33333333333333 and its score is the double 73.33; the score equals neither that
  product nor the product \<open>220/3\<close> of exact arithmetic.
\<close>

theorem score_is_not_the_product:
  "suggest_modules ascii_lower [(''identity'', [''full_name'', ''aliases'', ''dob''])]
     [(''identity'', PDict [(''full_name'', PStr ''Jane Doe'')])] None =
   Inr [(''Identity_DeepDive'', 5160140010548101 / 70368744177664), (''Alias_Expansion'', 66)]
   \<and> analyze_gaps [(''identity'', [''full_name'', ''aliases'', ''dob''])]
     [(''identity'', PDict [(''full_name'', PStr ''Jane Doe'')])] =
   Inr [(''identity'', \<lparr>missing_fields = [''aliases'', ''dob''],
                        completeness = 3002399751580331 / 9007199254740992\<rparr>)]
   \<and> 5160140010548101 / 70368744177664 \<noteq>
       raw_score (fl (1 - 3002399751580331 / 9007199254740992)) 0 2
   \<and> 5160140010548101 / 70368744177664 \<noteq> spec_score (1 - 1 / 3) 0 2"
proof -
  have a: "5160140010548101 / 70368744177664 \<noteq>
             raw_score (fl (1 - 3002399751580331 / 9007199254740992)) 0 2"
    unfolding example_raw_score by simp
  have b: "5160140010548101 / 70368744177664 \<noteq> spec_score (1 - 1 / 3) 0 2"
    by (simp add: spec_score_def)
  show ?thesis
    by (intro conjI) (rule example_suggestions example_gaps a b)+
qed

theorem suggestion_score_rounded_witness:
  "\<exists>gaps section entry modules rank.
     analyze_gaps [(''identity'', [''full_name'', ''aliases'', ''dob''])]
       [(''identity'', PDict [(''full_name'', PStr ''Jane Doe'')])] = Inr gaps \<and>
     (section, entry) \<in> set gaps \<and>
     map_of section_modules section = Some modules \<and>
     rank < length modules \<and> modules ! rank = ''Identity_DeepDive'' \<and>
     5160140010548101 / 70368744177664 =
       py_round2 (raw_score (fl (1 - completeness entry)) rank (length (missing_fields entry)))"
  by (rule suggestion_score_rounded[OF example_suggestions]) simp

theorem suggest_modules_sorted_stable_witness:
  "sorted_wrt (\<lambda>a b. snd b \<le> snd a)
     [(''Identity_DeepDive'', 5160140010548101 / 70368744177664 :: rat), (''Alias_Expansion'', 66)] \<and>
   (\<exists>gaps. analyze_gaps [(''identity'', [''full_name'', ''aliases'', ''dob''])]
       [(''identity'', PDict [(''full_name'', PStr ''Jane Doe'')])] = Inr gaps \<and>
      (\<forall>v. filter (\<lambda>item. snd item = v)
             [(''Identity_DeepDive'', 5160140010548101 / 70368744177664), (''Alias_Expansion'', 66)] =
           filter (\<lambda>item. snd item = v)
             (sections_loop ascii_lower
                (set (map ascii_lower (case None of None \<Rightarrow> [] | Some h \<Rightarrow> h))) gaps []))) \<and>
   (map_of section_modules ''identity'' = Some [''Identity_DeepDive'', ''Alias_Expansion''] \<and>
    (0::nat) \<le> 1 \<and> 1 < length [''Identity_DeepDive'', ''Alias_Expansion''] \<and>
    ([''Identity_DeepDive'', ''Alias_Expansion''] ! 0, 5160140010548101 / 70368744177664) \<in>
      set [(''Identity_DeepDive'', 5160140010548101 / 70368744177664 :: rat), (''Alias_Expansion'', 66)] \<and>
    ([''Identity_DeepDive'', ''Alias_Expansion''] ! 1, 66) \<in>
      set [(''Identity_DeepDive'', 5160140010548101 / 70368744177664 :: rat), (''Alias_Expansion'', 66)]) \<and>
   (66 :: rat) \<le> 5160140010548101 / 70368744177664"
proof -
  note t = suggest_modules_sorted_stable[OF example_suggestions]
  have pre: "map_of section_modules ''identity'' = Some [''Identity_DeepDive'', ''Alias_Expansion''] \<and>
    (0::nat) \<le> 1 \<and> 1 < length [''Identity_DeepDive'', ''Alias_Expansion''] \<and>
    ([''Identity_DeepDive'', ''Alias_Expansion''] ! 0, 5160140010548101 / 70368744177664) \<in>
      set [(''Identity_DeepDive'', 5160140010548101 / 70368744177664 :: rat), (''Alias_Expansion'', 66)] \<and>
    ([''Identity_DeepDive'', ''Alias_Expansion''] ! 1, 66) \<in>
      set [(''Identity_DeepDive'', 5160140010548101 / 70368744177664 :: rat), (''Alias_Expansion'', 66)]"
    by (simp add: section_modules_def)
  from t pre have "(66 :: rat) \<le> 5160140010548101 / 70368744177664" by blast
  with t pre show ?thesis by blast
qed

section \<open>The planner only reads the profile\<close>

lemma missing_loop_st_eq:
  "missing_loop_st section fs missing profile =
     (missing_loop (profile_get profile section) fs missing, profile)"
  by (induction fs arbitrary: missing) (simp_all add: field_read_def split: sum.splits)

lemma section_gap_st_eq:
  "section_gap_st section required_fields profile =
     (section_gap profile section required_fields, profile)"
  by (simp add: section_gap_st_def section_gap_def profile_read_def missing_loop_st_eq Let_def
           split: sum.splits)

lemma analyze_loop_st_eq:
  "analyze_loop_st reqs gaps profile = (analyze_loop profile reqs gaps, profile)"
  by (induction reqs arbitrary: gaps) (auto simp: section_gap_st_eq split: sum.splits)

lemma analyze_gaps_st_eq:
  "analyze_gaps_st reqs profile = (analyze_gaps reqs profile, profile)"
  by (simp add: analyze_gaps_st_def analyze_gaps_def analyze_loop_st_eq)

lemma suggest_modules_st_eq:
  "suggest_modules_st str_lower reqs history profile = (suggest_modules str_lower reqs profile history, profile)"
  by (simp add: suggest_modules_st_def suggest_modules_def analyze_gaps_st_eq Let_def
           split: sum.splits)

text \<open>
  Claim C10: \<open>analyze_gaps\<close> and \<open>suggest_modules\<close> leave the profile, with all its
  nested section values, as they found it, whether they return or raise; what they
  compute is what the functions without state compute.
\<close>

theorem planner_leaves_profile_unchanged:
  "snd (analyze_gaps_st reqs profile) = profile \<and>
   snd (suggest_modules_st str_lower reqs history profile) = profile \<and>
   fst (analyze_gaps_st reqs profile) = analyze_gaps reqs profile \<and>
   fst (suggest_modules_st str_lower reqs history profile) = suggest_modules str_lower reqs profile history"
  by (simp add: analyze_gaps_st_eq suggest_modules_st_eq)

section \<open>The execution order\<close>

lemma extends_simps [simp]:
  "visiting (extends st new) = visiting st"
  "visited (extends st new) = visited st \<union> set new"
  "ordered (extends st new) = ordered st @ new"
  by (simp_all add: extends_def)

lemma extends_Nil: "extends st [] = st"
  by (simp add: extends_def)

lemma extends_extends: "extends (extends st xs) ys = extends st (xs @ ys)"
  by (simp add: extends_def Un_assoc)

lemma visit_post:
  "\<exists>new. visit D expanded module_id st = extends st new \<and> distinct new \<and>
         set new \<inter> (visited st \<union> visiting st) = {} \<and> set new \<subseteq> insert module_id expanded \<and>
         (module_id \<in> set new \<or> module_id \<in> visited st \<or> module_id \<in> visiting st)"
  "\<exists>new. visit_deps D expanded ds st = extends st new \<and> distinct new \<and>
         set new \<inter> (visited st \<union> visiting st) = {} \<and> set new \<subseteq> expanded \<and>
         (\<forall>d \<in> set ds. d \<in> expanded \<longrightarrow> d \<in> set new \<or> d \<in> visited st \<or> d \<in> visiting st)"
proof (induction D expanded module_id st and D expanded ds st rule: visit_visit_deps.induct)
  case (1 D expanded module_id st)
  show ?case
  proof (cases "module_id \<in> visited st \<or> module_id \<in> visiting st")
    case True
    then have "visit D expanded module_id st = extends st []"
      by (auto simp: extends_Nil visit.simps)
    with True show ?thesis by (intro exI[of _ "[]"]) auto
  next
    case False
    let ?st1 = "st\<lparr>visiting := insert module_id (visiting st)\<rparr>"
    from False 1 obtain new where
      eq: "visit_deps D expanded (deps_of D module_id) ?st1 = extends ?st1 new"
      and d: "distinct new"
      and disj: "set new \<inter> (visited ?st1 \<union> visiting ?st1) = {}"
      and sub: "set new \<subseteq> expanded"
      by blast
    have m: "module_id \<notin> set new" using disj by auto
    have "visit D expanded module_id st = extends st (new @ [module_id])"
      using False by (simp add: visit.simps eq extends_def insert_absorb Let_def)
    moreover have "distinct (new @ [module_id])" using d m by simp
    moreover have "set (new @ [module_id]) \<inter> (visited st \<union> visiting st) = {}"
      using disj False by auto
    moreover have "set (new @ [module_id]) \<subseteq> insert module_id expanded" using sub by auto
    ultimately show ?thesis by (intro exI[of _ "new @ [module_id]"]) simp
  qed
next
  case (2 D expanded st)
  show ?case by (intro exI[of _ "[]"]) (simp add: extends_Nil)
next
  case (3 D expanded dependency rest st)
  let ?st' = "if dependency \<in> expanded then visit D expanded dependency st else st"
  have "\<exists>n1. ?st' = extends st n1 \<and> distinct n1 \<and> set n1 \<inter> (visited st \<union> visiting st) = {} \<and>
          set n1 \<subseteq> expanded \<and>
          (dependency \<in> expanded \<longrightarrow>
             dependency \<in> set n1 \<or> dependency \<in> visited st \<or> dependency \<in> visiting st)"
  proof (cases "dependency \<in> expanded")
    case True
    from 3(1)[OF True] obtain n1 where n1: "visit D expanded dependency st = extends st n1"
      "distinct n1" "set n1 \<inter> (visited st \<union> visiting st) = {}"
      "set n1 \<subseteq> insert dependency expanded"
      "dependency \<in> set n1 \<or> dependency \<in> visited st \<or> dependency \<in> visiting st" by blast
    from n1(4) True have "set n1 \<subseteq> expanded" by auto
    with n1 True show ?thesis by (intro exI[of _ n1]) simp
  next
    case False
    then show ?thesis by (intro exI[of _ "[]"]) (simp add: extends_Nil)
  qed
  then obtain n1 where n1: "?st' = extends st n1" "distinct n1"
    "set n1 \<inter> (visited st \<union> visiting st) = {}" "set n1 \<subseteq> expanded"
    "dependency \<in> expanded \<longrightarrow>
       dependency \<in> set n1 \<or> dependency \<in> visited st \<or> dependency \<in> visiting st" by blast
  from 3(2) obtain n2 where n2: "visit_deps D expanded rest ?st' = extends ?st' n2"
    "distinct n2" "set n2 \<inter> (visited ?st' \<union> visiting ?st') = {}" "set n2 \<subseteq> expanded"
    "\<forall>d \<in> set rest. d \<in> expanded \<longrightarrow> d \<in> set n2 \<or> d \<in> visited ?st' \<or> d \<in> visiting ?st'"
    by blast
  have v': "visited ?st' = visited st \<union> set n1" "visiting ?st' = visiting st"
    by (simp_all only: n1(1) extends_simps)
  have "visit_deps D expanded (dependency # rest) st = extends st (n1 @ n2)"
    by (simp only: visit_deps.simps n2(1)) (simp only: n1(1) extends_extends)
  moreover have "distinct (n1 @ n2)" using n1(2) n2(2,3) v' by auto
  moreover have "set (n1 @ n2) \<inter> (visited st \<union> visiting st) = {}"
    using n1(3) n2(3) v' by auto
  moreover have "set (n1 @ n2) \<subseteq> expanded" using n1(4) n2(4) by simp
  moreover have "\<forall>d \<in> set (dependency # rest). d \<in> expanded \<longrightarrow>
      d \<in> set (n1 @ n2) \<or> d \<in> visited st \<or> d \<in> visiting st"
    using n1(5) n2(5) v' by auto
  ultimately show ?case by (intro exI[of _ "n1 @ n2"]) blast
qed


lemma deps_before_Nil: "deps_before D expanded []"
  by (simp add: deps_before_def)

lemma deps_before_snoc:
  "deps_before D expanded (xs @ [m]) \<longleftrightarrow>
     deps_before D expanded xs \<and> (\<forall>d \<in> set (deps_of D m). d \<in> expanded \<longrightarrow> d \<in> set xs)"
  by (auto simp: deps_before_def nth_append less_Suc_eq)

lemma visit_acyclic:
  "acyclic (dep_rel D) \<Longrightarrow> \<forall>v \<in> visiting st. (v, module_id) \<in> (dep_rel D)\<^sup>+ \<Longrightarrow>
   deps_before D expanded (ordered st) \<Longrightarrow> set (ordered st) = visited st \<Longrightarrow>
   deps_before D expanded (ordered (visit D expanded module_id st)) \<and>
   module_id \<in> visited (visit D expanded module_id st)"
  "acyclic (dep_rel D) \<Longrightarrow> \<forall>v \<in> visiting st. \<forall>d \<in> set ds. (v, d) \<in> (dep_rel D)\<^sup>+ \<Longrightarrow>
   deps_before D expanded (ordered st) \<Longrightarrow> set (ordered st) = visited st \<Longrightarrow>
   deps_before D expanded (ordered (visit_deps D expanded ds st)) \<and>
   (\<forall>d \<in> set ds. d \<in> expanded \<longrightarrow> d \<in> visited (visit_deps D expanded ds st))"
proof (induction D expanded module_id st and D expanded ds st rule: visit_visit_deps.induct)
  case (1 D expanded module_id st)
  have notvis: "module_id \<notin> visiting st"
  proof
    assume "module_id \<in> visiting st"
    with 1(3) have "(module_id, module_id) \<in> (dep_rel D)\<^sup>+" by blast
    with 1(2) show False by (simp add: acyclic_def)
  qed
  show ?case
  proof (cases "module_id \<in> visited st")
    case True
    with 1(4) show ?thesis by (simp add: visit.simps)
  next
    case False
    let ?st1 = "st\<lparr>visiting := insert module_id (visiting st)\<rparr>"
    let ?st2 = "visit_deps D expanded (deps_of D module_id) ?st1"
    have pre: "\<forall>v \<in> visiting ?st1. \<forall>d \<in> set (deps_of D module_id). (v, d) \<in> (dep_rel D)\<^sup>+"
    proof (intro ballI)
      fix v d assume v: "v \<in> visiting ?st1" and d: "d \<in> set (deps_of D module_id)"
      have step: "(module_id, d) \<in> dep_rel D" using d by (simp add: dep_rel_def)
      show "(v, d) \<in> (dep_rel D)\<^sup>+"
      proof (cases "v = module_id")
        case True
        with step show ?thesis by auto
      next
        case False
        with v have "v \<in> visiting st" by simp
        with 1(3) have "(v, module_id) \<in> (dep_rel D)\<^sup>+" by blast
        then show ?thesis using step by (rule trancl_into_trancl)
      qed
    qed
    from 1(1)[OF False notvis 1(2) pre] 1(4,5)
    have ih: "deps_before D expanded (ordered ?st2)"
      "\<forall>d \<in> set (deps_of D module_id). d \<in> expanded \<longrightarrow> d \<in> visited ?st2"
      by simp_all
    from visit_post(2)[of D expanded "deps_of D module_id" ?st1]
    obtain new where "?st2 = extends ?st1 new" by blast
    then have "set (ordered ?st2) = visited ?st2" using 1(5) by auto
    with ih have "deps_before D expanded (ordered ?st2 @ [module_id])"
      by (simp add: deps_before_snoc)
    then show ?thesis using False notvis by (simp add: visit.simps Let_def)
  qed
next
  case (2 D expanded st)
  then show ?case by simp
next
  case (3 D expanded dependency rest st)
  let ?st' = "if dependency \<in> expanded then visit D expanded dependency st else st"
  have a: "deps_before D expanded (ordered ?st')"
    and b: "dependency \<in> expanded \<longrightarrow> dependency \<in> visited ?st'"
    using 3(1)[OF _ 3(3)] 3(4,5,6) by auto
  have "\<exists>n1. ?st' = extends st n1"
  proof (cases "dependency \<in> expanded")
    case True
    then show ?thesis using visit_post(1)[of D expanded dependency st] by auto
  next
    case False
    then show ?thesis using extends_Nil[of st] by (intro exI[of _ "[]"]) simp
  qed
  then obtain n1 where n1: "?st' = extends st n1" by blast
  have c: "set (ordered ?st') = visited ?st'" "visiting ?st' = visiting st"
    using 3(6) by (simp_all only: n1 extends_simps set_append)
  have pre: "\<forall>v \<in> visiting ?st'. \<forall>d \<in> set rest. (v, d) \<in> (dep_rel D)\<^sup>+"
    using 3(4) c(2) by simp
  from 3(2)[OF 3(3) pre a c(1)]
  have ih: "deps_before D expanded (ordered (visit_deps D expanded rest ?st'))"
    "\<forall>d \<in> set rest. d \<in> expanded \<longrightarrow> d \<in> visited (visit_deps D expanded rest ?st')"
    by simp_all
  obtain n2 where n2: "visit_deps D expanded rest ?st' = extends ?st' n2"
    using visit_post(2)[of D expanded rest ?st'] by blast
  have "visited ?st' \<subseteq> visited (visit_deps D expanded rest ?st')"
    by (simp only: n2 extends_simps) simp
  with b ih show ?case by (simp only: visit_deps.simps) auto
qed


lemma priority_loop_post:
  "priority_loop ps acc remaining = (acc', remaining') \<Longrightarrow>
   set acc' \<union> remaining' = set acc \<union> remaining \<and> remaining' \<subseteq> remaining \<and>
   (distinct acc \<and> set acc \<inter> remaining = {} \<longrightarrow> distinct acc' \<and> set acc' \<inter> remaining' = {})"
proof (induction ps arbitrary: acc remaining)
  case Nil
  then show ?case by auto
next
  case (Cons name ps)
  show ?case
  proof (cases "name \<in> remaining")
    case True
    with Cons.prems have "priority_loop ps (acc @ [name]) (remaining - {name}) = (acc', remaining')"
      by simp
    from Cons.IH[OF this] True show ?thesis by auto
  next
    case False
    with Cons.prems have "priority_loop ps acc remaining = (acc', remaining')" by simp
    from Cons.IH[OF this] show ?thesis by auto
  qed
qed

lemma order_modules_set: "set (order_modules modules) = set modules"
proof -
  obtain acc' remaining' where p: "priority_loop MODULE_PRIORITY [] (set modules) = (acc', remaining')"
    by (cases "priority_loop MODULE_PRIORITY [] (set modules)")
  from priority_loop_post[OF p] have "set acc' \<union> remaining' = set modules" "remaining' \<subseteq> set modules"
    by auto
  moreover from this have "finite remaining'" by (meson List.finite_set finite_subset)
  ultimately show ?thesis by (simp add: order_modules_def p)
qed

lemma order_modules_distinct: "distinct (order_modules modules)"
proof -
  obtain acc' remaining' where p: "priority_loop MODULE_PRIORITY [] (set modules) = (acc', remaining')"
    by (cases "priority_loop MODULE_PRIORITY [] (set modules)")
  from priority_loop_post[OF p] have a: "distinct acc'" "set acc' \<inter> remaining' = {}"
    "remaining' \<subseteq> set modules" by auto
  then have "finite remaining'" by (meson List.finite_set finite_subset)
  with a show ?thesis by (simp add: order_modules_def p)
qed

lemma order_modules_cong: "set xs = set ys \<Longrightarrow> order_modules xs = order_modules ys"
  by (simp add: order_modules_def)

lemma expand_closure_post:
  "expanded \<subseteq> expand_closure D expanded \<and>
   closure_pass D (expand_closure D expanded) = expand_closure D expanded \<and>
   (finite expanded \<longrightarrow> finite (expand_closure D expanded))"
proof (induction D expanded rule: expand_closure.induct)
  case (1 D expanded)
  show ?case
  proof (cases "closure_pass D expanded = expanded")
    case True
    then show ?thesis by (subst (1 2 3 4) expand_closure.simps) (simp add: Let_def)
  next
    case False
    have sub: "expanded \<subseteq> closure_pass D expanded" by (auto simp: closure_pass_def)
    have fin: "finite expanded \<Longrightarrow> finite (closure_pass D expanded)"
      by (simp add: closure_pass_def)
    have eq: "expand_closure D expanded = expand_closure D (closure_pass D expanded)"
      using False by (subst expand_closure.simps) (simp add: Let_def)
    from 1[OF refl False] sub fin show ?thesis unfolding eq by auto
  qed
qed

lemma expand_closure_deps:
  assumes "m \<in> expand_closure D expanded"
  shows "set (deps_of D m) \<subseteq> expand_closure D expanded"
proof -
  have "closure_pass D (expand_closure D expanded) = expand_closure D expanded"
    using expand_closure_post by blast
  with assms show ?thesis by (auto simp: closure_pass_def)
qed

lemma fold_visit_post:
  "\<exists>new. fold (\<lambda>module_id st. visit D expanded module_id st) ms st = extends st new \<and>
         distinct new \<and> set new \<inter> (visited st \<union> visiting st) = {} \<and>
         set new \<subseteq> set ms \<union> expanded \<and>
         (\<forall>m \<in> set ms. m \<in> set new \<or> m \<in> visited st \<or> m \<in> visiting st)"
proof (induction ms arbitrary: st)
  case Nil
  show ?case by (intro exI[of _ "[]"]) (simp add: extends_Nil)
next
  case (Cons m ms)
  from visit_post(1)[of D expanded m st] obtain n1 where
    n1: "visit D expanded m st = extends st n1" "distinct n1"
    "set n1 \<inter> (visited st \<union> visiting st) = {}" "set n1 \<subseteq> insert m expanded"
    "m \<in> set n1 \<or> m \<in> visited st \<or> m \<in> visiting st" by blast
  from Cons.IH[of "extends st n1"] obtain n2 where
    n2: "fold (\<lambda>module_id st. visit D expanded module_id st) ms (extends st n1) =
           extends (extends st n1) n2" "distinct n2"
    "set n2 \<inter> (visited (extends st n1) \<union> visiting (extends st n1)) = {}"
    "set n2 \<subseteq> set ms \<union> expanded"
    "\<forall>m \<in> set ms. m \<in> set n2 \<or> m \<in> visited (extends st n1) \<or> m \<in> visiting (extends st n1)"
    by blast
  have "fold (\<lambda>module_id st. visit D expanded module_id st) (m # ms) st = extends st (n1 @ n2)"
    by (simp add: n1(1) n2(1) extends_extends)
  moreover have "distinct (n1 @ n2)" using n1(2) n2(2,3) by auto
  moreover have "set (n1 @ n2) \<inter> (visited st \<union> visiting st) = {}" using n1(3) n2(3) by auto
  moreover have "set (n1 @ n2) \<subseteq> set (m # ms) \<union> expanded" using n1(4) n2(4) by auto
  moreover have "\<forall>x \<in> set (m # ms). x \<in> set (n1 @ n2) \<or> x \<in> visited st \<or> x \<in> visiting st"
    using n1(5) n2(5) by auto
  ultimately show ?case by (intro exI[of _ "n1 @ n2"]) blast
qed

lemma fold_visit_acyclic:
  "acyclic (dep_rel D) \<Longrightarrow> visiting st = {} \<Longrightarrow> deps_before D expanded (ordered st) \<Longrightarrow>
   set (ordered st) = visited st \<Longrightarrow>
   deps_before D expanded (ordered (fold (\<lambda>module_id st. visit D expanded module_id st) ms st))"
proof (induction ms arbitrary: st)
  case Nil
  then show ?case by simp
next
  case (Cons m ms)
  from visit_post(1)[of D expanded m st] obtain n1 where
    n1: "visit D expanded m st = extends st n1" by blast
  have a: "deps_before D expanded (ordered (visit D expanded m st))"
    using visit_acyclic(1)[of D st m expanded] Cons.prems by simp
  have b: "visiting (visit D expanded m st) = {}" "set (ordered (visit D expanded m st)) =
      visited (visit D expanded m st)"
    using Cons.prems(2,4) by (simp_all only: n1 extends_simps set_append)
  from Cons.IH[OF Cons.prems(1) b(1) a b(2)] show ?case by simp
qed

lemma execution_order_set_distinct:
  "set (execution_order D selected) = expand_closure D (set selected) \<and>
   distinct (execution_order D selected)"
proof -
  define expanded where "expanded = expand_closure D (set selected)"
  define ms where "ms = order_modules (sorted_list_of_set expanded)"
  define st0 where "st0 = \<lparr>visiting = {}, visited = {}, ordered = ([] :: string list)\<rparr>"
  have "finite expanded" unfolding expanded_def using expand_closure_post[of "set selected" D] by simp
  then have ms: "set ms = expanded" by (simp add: ms_def order_modules_set)
  from fold_visit_post[of D expanded ms st0] obtain new where
    new: "fold (\<lambda>module_id st. visit D expanded module_id st) ms st0 = extends st0 new"
    "distinct new" "set new \<subseteq> set ms \<union> expanded"
    "\<forall>m \<in> set ms. m \<in> set new \<or> m \<in> visited st0 \<or> m \<in> visiting st0" by blast
  have eo: "execution_order D selected = new"
    by (simp add: execution_order_def Let_def expanded_def[symmetric] ms_def[symmetric]
          st0_def[symmetric] new(1)) (simp add: st0_def)
  have "set new = expanded" using new(3,4) ms by (auto simp: st0_def)
  with new(2) eo show ?thesis by (simp add: expanded_def)
qed

lemma execution_order_deps_before:
  assumes "acyclic (dep_rel D)"
  shows "deps_before D (expand_closure D (set selected)) (execution_order D selected)"
proof -
  define expanded where "expanded = expand_closure D (set selected)"
  define st0 where "st0 = \<lparr>visiting = {}, visited = {}, ordered = ([] :: string list)\<rparr>"
  have "deps_before D expanded (ordered (fold (\<lambda>module_id st. visit D expanded module_id st)
          (order_modules (sorted_list_of_set expanded)) st0))"
    by (rule fold_visit_acyclic[OF assms]) (simp_all add: st0_def deps_before_Nil)
  then show ?thesis
    by (simp add: execution_order_def Let_def expanded_def[symmetric] st0_def[symmetric])
qed

lemma distinct_count_list_1: "distinct xs \<Longrightarrow> x \<in> set xs \<Longrightarrow> count_list xs x = 1"
  by (induction xs) auto

lemma dependencies_rank:
  "d \<in> set (deps_of dependencies module_id) \<Longrightarrow> dependency_rank d < dependency_rank module_id"
  by (auto simp: deps_of_def dependencies_def dependency_rank_def split: if_splits)

lemma dependencies_acyclic: "acyclic (dep_rel dependencies)"
  by (rule acyclicI_order[where f = dependency_rank]) (simp add: dep_rel_def dependencies_rank)

lemma execution_order_respects_acyclic:
  assumes "acyclic (dep_rel D)" "i < length (execution_order D selected)"
    "d \<in> set (deps_of D (execution_order D selected ! i))" "d \<in> set (execution_order D selected)"
  shows "\<exists>j<i. execution_order D selected ! j = d"
proof -
  have "d \<in> expand_closure D (set selected)"
    using assms(4) execution_order_set_distinct[of D selected] by simp
  with execution_order_deps_before[OF assms(1), of selected] assms(2,3)
  have "d \<in> set (take i (execution_order D selected))"
    unfolding deps_before_def by blast
  then obtain j where "j < length (take i (execution_order D selected))"
    "take i (execution_order D selected) ! j = d" by (auto simp: in_set_conv_nth)
  then show ?thesis by (intro exI[of _ j]) auto
qed

text \<open>
  Claim C1: with the orchestrator's own dependency table, which is acyclic, for every
  list of selected module ids and every module in the order returned by
  \<open>_build_execution_order\<close>, each of its dependencies that occurs in the order occurs at
  an earlier position.
\<close>

theorem build_execution_order_respects_dependencies:
  "\<forall>i < length (build_execution_order selected_modules).
     \<forall>d \<in> set (deps_of dependencies (build_execution_order selected_modules ! i)).
       d \<in> set (build_execution_order selected_modules) \<longrightarrow>
       (\<exists>j<i. build_execution_order selected_modules ! j = d)"
  unfolding build_execution_order_def
  using execution_order_respects_acyclic[OF dependencies_acyclic] by blast

lemma example_order:
  "build_execution_order [''Metagoofil'', ''SpiderFoot''] =
     [''theHarvester'', ''Recon-ng'', ''SpiderFoot'', ''Photon'', ''Metagoofil'']"
  by code_simp

theorem build_execution_order_respects_dependencies_witness:
  "\<exists>j<2. build_execution_order [''Metagoofil'', ''SpiderFoot''] ! j = ''Recon-ng''"
proof -
  have "2 < length (build_execution_order [''Metagoofil'', ''SpiderFoot''])"
    by (simp add: example_order)
  moreover have "''Recon-ng'' \<in>
      set (deps_of dependencies (build_execution_order [''Metagoofil'', ''SpiderFoot''] ! 2))"
    by (simp add: example_order deps_of_def dependencies_def)
  moreover have "''Recon-ng'' \<in> set (build_execution_order [''Metagoofil'', ''SpiderFoot''])"
    by (simp add: example_order)
  ultimately show ?thesis
    using build_execution_order_respects_dependencies[of "[''Metagoofil'', ''SpiderFoot'']"]
    by blast
qed

text \<open>
  Claim C3: for every dependency table, cyclic or not, and every selection, the closure
  loop and the depth-first visit terminate (both are total functions, their termination
  is proved with their definitions), the order returned consists of exactly the modules
  of the closed set, which contains the selection and the dependencies of its members,
  and each of them occurs exactly once. For the table in which A depends on B and B on
  A, the order is B, A.
\<close>

theorem execution_order_each_once:
  "set (execution_order D selected_modules) = expand_closure D (set selected_modules) \<and>
   set selected_modules \<subseteq> expand_closure D (set selected_modules) \<and>
   (\<forall>m \<in> expand_closure D (set selected_modules).
      set (deps_of D m) \<subseteq> expand_closure D (set selected_modules) \<and>
      count_list (execution_order D selected_modules) m = 1)"
proof -
  have a: "set (execution_order D selected_modules) = expand_closure D (set selected_modules)"
    and d: "distinct (execution_order D selected_modules)"
    using execution_order_set_distinct by blast+
  have b: "set selected_modules \<subseteq> expand_closure D (set selected_modules)"
    using expand_closure_post by blast
  have c: "count_list (execution_order D selected_modules) m = 1"
    if "m \<in> expand_closure D (set selected_modules)" for m
    using that a d by (intro distinct_count_list_1) simp_all
  from a b c expand_closure_deps show ?thesis by blast
qed

lemma example_cycle:
  "execution_order [(''A'', [''B'']), (''B'', [''A''])] [''A''] = [''B'', ''A'']"
  by code_simp

theorem execution_order_each_once_witness:
  "execution_order [(''A'', [''B'']), (''B'', [''A''])] [''A''] = [''B'', ''A''] \<and>
   count_list (execution_order [(''A'', [''B'']), (''B'', [''A''])] [''A'']) ''A'' = 1 \<and>
   count_list (execution_order [(''A'', [''B'']), (''B'', [''A''])] [''A'']) ''B'' = 1"
proof -
  let ?D = "[(''A'', [''B'']), (''B'', [''A''])]"
  note t = execution_order_each_once[of ?D "[''A'']"]
  from t have s: "set (execution_order ?D [''A'']) = expand_closure ?D (set [''A''])" by blast
  have "''A'' \<in> expand_closure ?D (set [''A''])" "''B'' \<in> expand_closure ?D (set [''A''])"
    unfolding s[symmetric] by (simp_all add: example_cycle)
  with t show ?thesis using example_cycle by blast
qed

section \<open>The execution engine\<close>



lemma run_modules_modules:
  "run_modules env order \<sigma> acc = (Inr rs, \<sigma>') \<Longrightarrow>
   (\<And>m \<sigma>1 r \<sigma>2. run_module env m \<sigma>1 = (Inr r, \<sigma>2) \<Longrightarrow> module r = m) \<Longrightarrow>
   map module rs = map module acc @ order"
proof (induction order arbitrary: \<sigma> acc)
  case Nil
  then show ?case by simp
next
  case (Cons m order)
  from Cons.prems(1) obtain r \<sigma>1 where r: "run_module env m \<sigma> = (Inr r, \<sigma>1)"
    and rest: "run_modules env order \<sigma>1 (acc @ [r]) = (Inr rs, \<sigma>')"
    by (auto split: prod.splits sum.splits)
  from Cons.IH[OF rest Cons.prems(2)] Cons.prems(2)[OF r] show ?case by simp
qed

lemma run_module_try_module:
  "run_module_try env m c s \<sigma> = (Inr r, \<sigma>') \<Longrightarrow> module r = m"
  by (auto simp: run_module_try_def split: prod.splits sum.splits if_splits)

lemma run_module_module: "run_module env m \<sigma> = (Inr r, \<sigma>') \<Longrightarrow> module r = m"
  by (auto simp: run_module_def split: prod.splits sum.splits option.splits if_splits
           dest: run_module_try_module)

lemma run_modules_records:
  "run_modules env order \<sigma> acc = (Inr rs, \<sigma>') \<Longrightarrow> map module rs = map module acc @ order"
  by (erule run_modules_modules) (rule run_module_module)





text \<open>
  Claim C2, amended: when the module's \<open>execute\<close> raises an exception of a class derived
  from \<open>Exception\<close>, \<open>_run_module\<close> returns a record with status \<open>failed\<close> whose
  summary is \<open>str\<close> of the exception, nothing propagates, the loop goes on with the
  modules after it, and a run that ends has one record per module of the order.
\<close>

theorem failed_module_recorded:
  assumes "load_module_class env module_id w = (Inr (Some module_class, section), w1)"
      and "prepare_module_kwargs env module_id profile w1 = Inr (kw, None)"
      and "construct env module_class kw w1 = (Inr inst, w2)"
      and "execute env inst (profile, w2) = (Inl exc, \<sigma>')"
      and "exc_kind_of exc = ExceptionSubclass"
  shows "run_module env module_id (profile, w) =
           (Inr \<lparr>module = module_id, status = ''failed'', summary = exc_str exc,
                 profile_section = section, output_keys = []\<rparr>, \<sigma>') \<and>
         run_modules env (module_id # rest) (profile, w) module_results =
           run_modules env rest \<sigma>'
             (module_results @ [\<lparr>module = module_id, status = ''failed'', summary = exc_str exc,
                                  profile_section = section, output_keys = []\<rparr>]) \<and>
         (\<forall>rs \<sigma>''. run_modules env (module_id # rest) (profile, w) module_results = (Inr rs, \<sigma>'')
            \<longrightarrow> map module rs = map module module_results @ module_id # rest)"
proof -
  have t: "run_module_try env module_id module_class section (profile, w1) = (Inl exc, \<sigma>')"
    by (simp add: run_module_try_def assms(2,3,4))
  have r: "run_module env module_id (profile, w) =
           (Inr \<lparr>module = module_id, status = ''failed'', summary = exc_str exc,
                 profile_section = section, output_keys = []\<rparr>, \<sigma>')"
    by (simp add: run_module_def assms(1,5) t)
  then have l: "run_modules env (module_id # rest) (profile, w) module_results =
           run_modules env rest \<sigma>'
             (module_results @ [\<lparr>module = module_id, status = ''failed'', summary = exc_str exc,
                                  profile_section = section, output_keys = []\<rparr>])"
    by simp
  have m: "\<forall>rs \<sigma>''. run_modules env (module_id # rest) (profile, w) module_results = (Inr rs, \<sigma>'')
            \<longrightarrow> map module rs = map module module_results @ module_id # rest"
    using run_modules_records by blast
  from r l m show ?thesis by blast
qed

lemma load_sherlock: "load_module_class (raising_env exc) ''Sherlock'' () = (Inr (Some (), ''social''), ())"
  by (simp add: load_module_class_def MODULE_REGISTRY_def raising_env_def)

lemma load_twint: "load_module_class (raising_env exc) ''Twint'' () = (Inr (Some (), ''social''), ())"
  by (simp add: load_module_class_def MODULE_REGISTRY_def raising_env_def)

theorem failed_module_recorded_witness:
  "run_module (raising_env (Raised ExceptionSubclass ''boom'')) ''Sherlock'' ([], ()) =
     (Inr \<lparr>module = ''Sherlock'', status = ''failed'', summary = ''boom'',
           profile_section = ''social'', output_keys = []\<rparr>, ([], ())) \<and>
   run_modules (raising_env (Raised ExceptionSubclass ''boom'')) [''Sherlock'', ''Twint''] ([], ()) [] =
     (Inr [\<lparr>module = ''Sherlock'', status = ''failed'', summary = ''boom'',
            profile_section = ''social'', output_keys = []\<rparr>,
           \<lparr>module = ''Twint'', status = ''failed'', summary = ''boom'',
            profile_section = ''social'', output_keys = []\<rparr>], ([], ()))"
proof -
  let ?env = "raising_env (Raised ExceptionSubclass ''boom'')"
  have p: "prepare_module_kwargs ?env m [] () = Inr ([(''logger'', KLogger)], None)"
    if "m \<noteq> ''Recon-ng''" for m
    using that by (simp add: prepare_module_kwargs_def)
  have c: "construct ?env () [(''logger'', KLogger)] () = (Inr (), ())"
    by (simp add: raising_env_def)
  have e: "execute ?env () ([], ()) = (Inl (Raised ExceptionSubclass ''boom''), ([], ()))"
    by (simp add: raising_env_def)
  have k: "exc_kind_of (Raised ExceptionSubclass ''boom'') = ExceptionSubclass" by simp
  from failed_module_recorded[OF load_sherlock p c e k, of "[''Twint'']" "[]"]
  have s: "run_module ?env ''Sherlock'' ([], ()) =
     (Inr \<lparr>module = ''Sherlock'', status = ''failed'', summary = ''boom'',
           profile_section = ''social'', output_keys = []\<rparr>, ([], ()))"
    and l: "run_modules ?env [''Sherlock'', ''Twint''] ([], ()) [] =
      run_modules ?env [''Twint''] ([], ())
        [\<lparr>module = ''Sherlock'', status = ''failed'', summary = ''boom'',
           profile_section = ''social'', output_keys = []\<rparr>]"
    by simp_all
  from failed_module_recorded[OF load_twint p c e k, of "[]"]
  have t: "run_module ?env ''Twint'' ([], ()) =
     (Inr \<lparr>module = ''Twint'', status = ''failed'', summary = ''boom'',
           profile_section = ''social'', output_keys = []\<rparr>, ([], ()))"
    by simp
  show ?thesis using s l t by simp
qed

text \<open>
  Claim C2, as stated, fails: \<open>except Exception\<close> does not catch an exception whose class
  derives from \<open>BaseException\<close> only, such as \<open>KeyboardInterrupt\<close> or \<open>SystemExit\<close>.
  Raised in \<open>execute\<close>, it leaves \<open>_run_module\<close> and the loop, and no record is made
  for this module or for the modules after it.
\<close>

theorem base_exception_propagates:
  "run_module (raising_env (Raised BaseExceptionOnly ''interrupted'')) ''Sherlock'' ([], ()) =
     (Inl (Raised BaseExceptionOnly ''interrupted''), ([], ())) \<and>
   run_modules (raising_env (Raised BaseExceptionOnly ''interrupted'')) [''Sherlock'', ''Twint'']
     ([], ()) [] = (Inl (Raised BaseExceptionOnly ''interrupted''), ([], ()))"
proof -
  let ?env = "raising_env (Raised BaseExceptionOnly ''interrupted'')"
  have t: "run_module_try ?env ''Sherlock'' () ''social'' ([], ()) =
             (Inl (Raised BaseExceptionOnly ''interrupted''), ([], ()))"
    by (simp add: run_module_try_def prepare_module_kwargs_def raising_env_def)
  have r: "run_module ?env ''Sherlock'' ([], ()) =
             (Inl (Raised BaseExceptionOnly ''interrupted''), ([], ()))"
    by (simp add: run_module_def load_sherlock t)
  then show ?thesis by simp
qed

end
